theory Spec2Isabelle
  imports Main "HOL-Library.Multiset"
begin


section \<open>Errors\<close>

text \<open>
  \<open>error(msg)\<close> of vega-util throws \<open>Error(msg)\<close>; reading a property of
  \<open>null\<close> or \<open>undefined\<close>, or calling something that is not a function, throws a
  \<open>TypeError\<close>. Both are values of the model.
\<close>

datatype error = Error string | TypeError string

section \<open>View accessor \<open>scale\<close> (src/unnamed/part\_000)\<close>

text \<open>
  The runtime keeps the scale operators in the object \<open>this._runtime.scales\<close>, keyed by
  name. An operator is an object with a \<open>value\<close> property (field \<open>val\<close> here).
\<close>

record 'v operator =
  val :: 'v

record 'v runtime =
  scales :: "string \<rightharpoonup> 'v operator"

record 'v view =
  runtime :: "'v runtime"

definition hasOwnProperty :: "('k \<rightharpoonup> 'a) \<Rightarrow> 'k \<Rightarrow> bool" where
  "hasOwnProperty object property = (object property \<noteq> None)"

text \<open>
  \<open>scale(name)\<close> returns its result together with the view it leaves behind: the function
  reads \<open>this._runtime.scales\<close> and writes nothing.
\<close>

definition scale :: "'v view \<Rightarrow> string \<Rightarrow> (error + 'v) \<times> 'v view" where
  "scale this name =
     (let scales = scales (runtime this) in
      if \<not> hasOwnProperty scales name
      then (Inl (Error (''Unrecognized scale or projection: '' @ name)), this)
      else (case scales name of
              Some s \<Rightarrow> (Inr (val s), this)
            | None \<Rightarrow> (Inl (TypeError ''scales[name] is undefined''), this)))"


section \<open>Plain objects used as maps\<close>

text \<open>
  \<open>miss\<close> in \<open>selectionTest\<close> and \<open>valuesByKey\<close> and \<open>result\<close> in \<open>nest()\<close> are created by
  \<open>{}\<close>: plain objects, whose prototype is \<open>Object.prototype\<close>. An object is the list of
  its own properties in the order of their creation. Reading a property that the object
  does not own finds the property of that name of \<open>Object.prototype\<close>, if there is one: a
  function or, for \<open>__proto__\<close>, the prototype object; these are truthy, none of them has
  a \<open>push\<close> method and none is a number.
\<close>

type_synonym 'v object = "(string \<times> 'v) list"

definition Object_prototype :: "string list" where
  "Object_prototype =
     [''constructor'', ''hasOwnProperty'', ''isPrototypeOf'', ''propertyIsEnumerable'',
      ''toLocaleString'', ''toString'', ''valueOf'', ''__proto__'',
      ''__defineGetter__'', ''__defineSetter__'', ''__lookupGetter__'', ''__lookupSetter__'']"

datatype 'v property = Own 'v | Inherited | Absent

definition get_property :: "'v object \<Rightarrow> string \<Rightarrow> 'v property" where
  "get_property obj k =
     (case map_of obj k of
        Some v \<Rightarrow> Own v
      | None \<Rightarrow> if k \<in> set Object_prototype then Inherited else Absent)"

text \<open>
  \<open>obj[k] = v\<close> for a name \<open>k\<close> other than \<open>__proto__\<close>: an own property keeps its place,
  a new one is created last.
\<close>

fun set_property :: "'v object \<Rightarrow> string \<Rightarrow> 'v \<Rightarrow> 'v object" where
  "set_property [] k v = [(k, v)]"
| "set_property ((k', v') # obj) k v =
     (if k' = k then (k, v) # obj else (k', v') # set_property obj k v)"

text \<open>
  \<open>obj[k] = v\<close> for a primitive \<open>v\<close> and any name: the name \<open>__proto__\<close> is the accessor
  of the prototype, and assigning a primitive to it changes nothing.
\<close>

definition assign_primitive :: "'v object \<Rightarrow> string \<Rightarrow> 'v \<Rightarrow> 'v object" where
  "assign_primitive obj k v = (if k = ''__proto__'' then obj else set_property obj k v)"

text \<open>
  \<open>for (k in obj)\<close> visits the own properties whose name is an array index (a canonical
  numeric string below \<open>2^32 - 1\<close>) in ascending numeric order, then the others in the
  order of their creation.
\<close>

definition digits_value :: "string \<Rightarrow> int" where
  "digits_value s = foldl (\<lambda>n c. 10 * n + (of_char c - 48)) 0 s"

definition array_index :: "string \<Rightarrow> bool" where
  "array_index s =
     (s \<noteq> [] \<and> list_all (\<lambda>c. c \<in> set ''0123456789'') s
      \<and> (s = ''0'' \<or> hd s \<noteq> CHR ''0'') \<and> digits_value s < 2 ^ 32 - 1)"

definition for_in :: "'v object \<Rightarrow> (string \<times> 'v) list" where
  "for_in obj =
     sort_key (\<lambda>(k, v). digits_value k) (filter (\<lambda>(k, v). array_index k) obj)
     @ filter (\<lambda>(k, v). \<not> array_index k) obj"


section \<open>Selection tests (src/packages/vega-selections/build/vega-selection.js)\<close>

text \<open>
  JavaScript values as far as \<open>testPoint\<close> looks at them: \<open>undefined\<close>, \<open>null\<close>,
  a primitive (number, string or boolean, of the abstract type \<open>'p\<close>), a \<open>Date\<close>
  object and an array.
\<close>

datatype 'p jsval = Undefined | Null | Prim 'p | Date 'p | Arr "'p jsval list"

text \<open>
  The helpers of vega-util are not part of the sources at hand. Those whose result depends
  on the arithmetic of numbers and strings are parameters of the model: the accessor
  \<open>field(name)\<close>, \<open>toNumber\<close>, \<open>inrange(value, range, left, right)\<close> and the strict
  equality \<open>===\<close> that \<open>indexOf\<close> and \<open>!==\<close> use.
\<close>

record ('d, 'p) util =
  field_accessor :: "string \<Rightarrow> 'd \<Rightarrow> 'p jsval"
  toNumber :: "'p jsval \<Rightarrow> 'p jsval"
  inrange :: "'p jsval \<Rightarrow> 'p jsval \<Rightarrow> bool \<Rightarrow> bool \<Rightarrow> bool"
  strict_eq :: "'p jsval \<Rightarrow> 'p jsval \<Rightarrow> bool"

definition isDate :: "'p jsval \<Rightarrow> bool" where
  "isDate v = (case v of Date _ \<Rightarrow> True | _ \<Rightarrow> False)"

definition isArray :: "'p jsval \<Rightarrow> bool" where
  "isArray v = (case v of Arr _ \<Rightarrow> True | _ \<Rightarrow> False)"

text \<open>
  \<open>isDate(v[0])\<close>: reading index 0 of \<open>null\<close> or \<open>undefined\<close> throws; an array gives its
  first element (\<open>undefined\<close> when empty); a primitive or a date gives a character or
  \<open>undefined\<close>, never a date.
\<close>

definition isDate_at0 :: "'p jsval \<Rightarrow> error + bool" where
  "isDate_at0 v =
     (case v of
        Undefined \<Rightarrow> Inl (TypeError ''Cannot read properties of undefined (reading 0)'')
      | Null \<Rightarrow> Inl (TypeError ''Cannot read properties of null (reading 0)'')
      | Arr (x # _) \<Rightarrow> Inr (isDate x)
      | _ \<Rightarrow> Inr False)"

text \<open>\<open>a[i]\<close> on an array: \<open>undefined\<close> beyond the end.\<close>

definition at_index :: "'p jsval list \<Rightarrow> nat \<Rightarrow> 'p jsval" where
  "at_index a i = (if i < length a then a ! i else Undefined)"

definition elements :: "'p jsval \<Rightarrow> 'p jsval list" where
  "elements v = (case v of Arr xs \<Rightarrow> xs | _ \<Rightarrow> [])"

text \<open>\<open>a.indexOf(x) < 0\<close>: no element of the array is strictly equal to \<open>x\<close>.\<close>

definition indexOf_negative :: "('d, 'p) util \<Rightarrow> 'p jsval \<Rightarrow> 'p jsval \<Rightarrow> bool" where
  "indexOf_negative u a x = (\<not> list_ex (\<lambda>y. strict_eq u y x) (elements a))"

definition TYPE_ENUM :: string where "TYPE_ENUM = ''E''"
definition TYPE_RANGE_INC :: string where "TYPE_RANGE_INC = ''R''"
definition TYPE_RANGE_EXC :: string where "TYPE_RANGE_EXC = ''R-E''"
definition TYPE_RANGE_LE :: string where "TYPE_RANGE_LE = ''R-LE''"
definition TYPE_RANGE_RE :: string where "TYPE_RANGE_RE = ''R-RE''"
definition Intersect :: string where "Intersect = ''intersect''"

lemmas type_consts =
  TYPE_ENUM_def TYPE_RANGE_INC_def TYPE_RANGE_EXC_def TYPE_RANGE_LE_def TYPE_RANGE_RE_def

record fielddef =
  field :: string
  type :: string

text \<open>
  A selection tuple \<open>{unit, fields, values}\<close> (fields \<open>entry_unit\<close>, \<open>entry_fields\<close>,
  \<open>entry_values\<close>). \<open>testPoint\<close> overwrites \<open>values[i]\<close> when it
  holds a date, so the loop returns the values array it leaves behind with its result.
  \<open>getter(f)\<close> is \<open>field(f.field)\<close> of vega-util (the function caches it in \<open>f.getter\<close>).
\<close>

record 'p entry =
  entry_unit :: string
  entry_fields :: "fielddef list"
  entry_values :: "'p jsval list"

fun testPoint_loop ::
  "('d, 'p) util \<Rightarrow> 'd \<Rightarrow> fielddef list \<Rightarrow> nat \<Rightarrow> 'p jsval list
     \<Rightarrow> 'p jsval list \<times> (error + bool)" where
  "testPoint_loop u datum [] i vs = (vs, Inr True)"
| "testPoint_loop u datum (f # fs) i vs =
     (let dval0 = field_accessor u (field f) datum;
          dval = (if isDate dval0 then toNumber u dval0 else dval0);
          vs1 = (if isDate (at_index vs i) then vs[i := toNumber u (at_index vs i)] else vs)
      in case isDate_at0 (at_index vs1 i) of
           Inl e \<Rightarrow> (vs1, Inl e)
         | Inr d0 \<Rightarrow>
            (let vs2 = (if d0 then vs1[i := Arr (map (toNumber u) (elements (at_index vs1 i)))]
                        else vs1);
                 vi = at_index vs2 i
             in if type f = TYPE_ENUM then
                  (if (if isArray vi then indexOf_negative u vi dval else \<not> strict_eq u dval vi)
                   then (vs2, Inr False)
                   else testPoint_loop u datum fs (Suc i) vs2)
                else if type f = TYPE_RANGE_INC then
                  (if \<not> inrange u dval vi True True then (vs2, Inr False)
                   else testPoint_loop u datum fs (Suc i) vs2)
                else if type f = TYPE_RANGE_RE then
                  (if \<not> inrange u dval vi True False then (vs2, Inr False)
                   else testPoint_loop u datum fs (Suc i) vs2)
                else if type f = TYPE_RANGE_EXC then
                  (if \<not> inrange u dval vi False False then (vs2, Inr False)
                   else testPoint_loop u datum fs (Suc i) vs2)
                else if type f = TYPE_RANGE_LE then
                  (if \<not> inrange u dval vi False True then (vs2, Inr False)
                   else testPoint_loop u datum fs (Suc i) vs2)
                else testPoint_loop u datum fs (Suc i) vs2))"

definition testPoint :: "('d, 'p) util \<Rightarrow> 'd \<Rightarrow> 'p entry \<Rightarrow> 'p entry \<times> (error + bool)" where
  "testPoint u datum entry =
     (case testPoint_loop u datum (entry_fields entry) 0 (entry_values entry) of
        (vs, r) \<Rightarrow> (entry\<lparr>entry_values := vs\<rparr>, r))"

text \<open>
  The data set of a selection: \<open>data.values.value\<close> (the entries) and, when present,
  the value of \<open>data['index:unit']\<close>, a map from unit names to objects with a \<open>count\<close>,
  with its \<open>size\<close>.
\<close>

record unit_index =
  size_of :: nat
  get_count :: "string \<rightharpoonup> int"

record 'p dataset =
  values_value :: "'p entry list"
  index_unit :: "unit_index option"

text \<open>
  The result of \<open>selectionTest\<close>: \<open>return b\<close> gives a boolean, \<open>return n && intersect\<close>
  gives the number \<open>0\<close> when there are no entries.
\<close>

datatype jsresult = Number nat | Boolean bool

definition truthy :: "jsresult \<Rightarrow> bool" where
  "truthy r = (case r of Number n \<Rightarrow> n \<noteq> 0 | Boolean b \<Rightarrow> b)"

text \<open>
  The values of the variable \<open>count\<close> (here \<open>cnt\<close>) and of the properties of \<open>miss\<close>: a number,
  \<open>NaN\<close>, or a property inherited from \<open>Object.prototype\<close>, which is a function or an
  object. \<open>miss[unit] || 0\<close> gives \<open>0\<close> for a missing property, for \<open>0\<close> and for \<open>NaN\<close>;
  \<open>++count\<close> gives \<open>NaN\<close> for what is not a number.
\<close>

datatype miss_count = Count int | NaN | Inherited_property

definition read_count :: "miss_count object \<Rightarrow> string \<Rightarrow> miss_count" where
  "read_count miss unit =
     (case get_property miss unit of
        Own (Count c) \<Rightarrow> Count c
      | Own NaN \<Rightarrow> Count 0
      | Own Inherited_property \<Rightarrow> Inherited_property
      | Inherited \<Rightarrow> Inherited_property
      | Absent \<Rightarrow> Count 0)"

definition increment :: "miss_count \<Rightarrow> miss_count" where
  "increment cnt = (case cnt of Count c \<Rightarrow> Count (c + 1) | _ \<Rightarrow> NaN)"

text \<open>
  The loop over the entries. The result is the entries as the loop leaves them, and
  \<open>Some\<close> of what a \<open>return\<close> or a throw inside the loop gave, \<open>None\<close> when the loop ran
  to its end. \<open>miss\<close> is the object counting the misses per unit, \<open>{}\<close> at its first use.
\<close>

fun selectionTest_loop ::
  "('d, 'p) util \<Rightarrow> 'd \<Rightarrow> unit_index option \<Rightarrow> bool \<Rightarrow> miss_count object \<Rightarrow> 'p entry list
     \<Rightarrow> 'p entry list \<times> (error + jsresult) option" where
  "selectionTest_loop u datum unitIdx intersect miss [] = ([], None)"
| "selectionTest_loop u datum unitIdx intersect miss (entry # rest) =
     (case (if intersect then unitIdx else None) of
        Some idx \<Rightarrow>
          (let unit = entry_unit entry;
               cnt = read_count miss unit in
           if cnt = Count (- 1) then
             (case selectionTest_loop u datum unitIdx intersect miss rest of
                (es, r) \<Rightarrow> (entry # es, r))
           else
             (case testPoint u datum entry of
                (entry', Inl e) \<Rightarrow> (entry' # rest, Some (Inl e))
              | (entry', Inr b) \<Rightarrow>
                 (let cnt' = (if b then cnt else increment cnt);
                      miss' = assign_primitive miss unit (if b then Count (- 1) else cnt')
                  in if b \<and> size_of idx = 1 then (entry' # rest, Some (Inr (Boolean True)))
                     else if b then
                       (case selectionTest_loop u datum unitIdx intersect miss' rest of
                          (es, r) \<Rightarrow> (entry' # es, r))
                     else
                       (case get_count idx unit of
                          None \<Rightarrow>
                            (entry' # rest,
                             Some (Inl (TypeError
                               ''Cannot read properties of undefined (reading count)'')))
                        | Some c \<Rightarrow>
                            if cnt' = Count c then (entry' # rest, Some (Inr (Boolean False)))
                            else
                              (case selectionTest_loop u datum unitIdx intersect miss' rest of
                                 (es, r) \<Rightarrow> (entry' # es, r))))))
      | None \<Rightarrow>
          (case testPoint u datum entry of
             (entry', Inl e) \<Rightarrow> (entry' # rest, Some (Inl e))
           | (entry', Inr b) \<Rightarrow>
               if intersect \<noteq> b then (entry' # rest, Some (Inr (Boolean b)))
               else
                 (case selectionTest_loop u datum unitIdx intersect miss rest of
                    (es, r) \<Rightarrow> (entry' # es, r))))"

text \<open>
  \<open>selectionTest(name, datum, op)\<close>, with \<open>this.context.data\<close> as a map from names to data
  sets. A missing data set gives no entries and no unit index. The result comes with the
  entries as the call leaves them.
\<close>

definition selectionTest ::
  "('d, 'p) util \<Rightarrow> (string \<rightharpoonup> 'p dataset) \<Rightarrow> string \<Rightarrow> 'd \<Rightarrow> string
     \<Rightarrow> 'p entry list \<times> (error + jsresult)" where
  "selectionTest u context_data name datum op =
     (let data = context_data name;
          entries = (case data of Some d \<Rightarrow> values_value d | None \<Rightarrow> []);
          unitIdx = (case data of Some d \<Rightarrow> index_unit d | None \<Rightarrow> None);
          intersect = (op = Intersect);
          n = length entries
      in case selectionTest_loop u datum unitIdx intersect [] entries of
           (es, Some r) \<Rightarrow> (es, r)
         | (es, None) \<Rightarrow> (es, Inr (if n = 0 then Number 0 else Boolean intersect)))"

text \<open>
  An instance of the helpers for evaluating the functions on concrete inputs: primitives
  are natural numbers, a datum is a function from field names to values, \<open>toNumber\<close> of a
  date is its time value, \<open>===\<close> is equality and \<open>inrange\<close> compares with the first and
  the last element of the range, swapped when out of order.
\<close>

definition nat_inrange :: "nat jsval \<Rightarrow> nat jsval \<Rightarrow> bool \<Rightarrow> bool \<Rightarrow> bool" where
  "nat_inrange v r left right =
     (case (v, r) of
        (Prim x, Arr (Prim a # rest)) \<Rightarrow>
          (case last (Prim a # rest) of
             Prim b \<Rightarrow>
               (let r0 = min a b; r1 = max a b
                in (if left then r0 \<le> x else r0 < x) \<and> (if right then x \<le> r1 else x < r1))
           | _ \<Rightarrow> False)
      | _ \<Rightarrow> False)"

definition nat_util :: "(string \<Rightarrow> nat jsval, nat) util" where
  "nat_util =
     \<lparr>field_accessor = (\<lambda>name d. d name),
      toNumber = (\<lambda>v. case v of Date t \<Rightarrow> Prim t | Undefined \<Rightarrow> Null | _ \<Rightarrow> v),
      inrange = nat_inrange,
      strict_eq = (=)\<rparr>"


section \<open>\<open>nest()\<close> (src/unnamed/part\_001, lines 96 to 139)\<close>

subsection \<open>\<open>apply\<close> and \<open>entries\<close>\<close>

text \<open>
  A key function is modelled with the coercion of its result to a string, \<open>key(value) + ''\<close>,
  built in. The \<open>while\<close> loop of \<open>apply\<close> files every element of the array under its key
  value: \<open>values.push(value)\<close> where \<open>valuesByKey[keyValue]\<close> is truthy, a new array
  otherwise. Where the read finds an inherited property the \<open>push\<close> is a call of
  \<open>undefined\<close>, which throws. So the loop assigns only where the read gave nothing, and
  never to \<open>__proto__\<close>.
\<close>

fun group_by_key ::
  "('a \<Rightarrow> string) \<Rightarrow> 'a list \<Rightarrow> 'a list object \<Rightarrow> error + 'a list object" where
  "group_by_key key [] valuesByKey = Inr valuesByKey"
| "group_by_key key (v # array) valuesByKey =
     (let keyValue = key v in
      case get_property valuesByKey keyValue of
        Own vs \<Rightarrow> group_by_key key array (set_property valuesByKey keyValue (vs @ [v]))
      | Inherited \<Rightarrow> Inl (TypeError ''values.push is not a function'')
      | Absent \<Rightarrow> group_by_key key array (set_property valuesByKey keyValue [v]))"

text \<open>\<open>for (k in obj) result[k] = f(obj[k])\<close>, stopping at the first throw.\<close>

fun for_each_result :: "('v \<Rightarrow> error + 'w) \<Rightarrow> (string \<times> 'v) list \<Rightarrow> error + 'w object" where
  "for_each_result f [] = Inr []"
| "for_each_result f ((k, v) # kvs) =
     (case f v of
        Inl e \<Rightarrow> Inl e
      | Inr w \<Rightarrow> (case for_each_result f kvs of Inl e \<Rightarrow> Inl e | Inr r \<Rightarrow> Inr ((k, w) # r)))"

text \<open>
  What \<open>apply\<close> and \<open>entries\<close> return: the array of elements at the depth of the last key,
  an object keyed by key values above it, and for \<open>entries\<close> an array of
  \<open>{key, values}\<close> objects.
\<close>

datatype 'a nested =
  Elements "'a list"
| Object "(string \<times> 'a nested) list"
| Entries "(string \<times> 'a nested) list"

text \<open>
  \<open>apply(array, depth)\<close> and \<open>entries(map, depth)\<close> index the shared list \<open>keys\<close> by
  \<open>depth\<close>; the first argument here is the rest of that list from \<open>depth\<close> on.
\<close>

primrec apply_keys :: "('a \<Rightarrow> string) list \<Rightarrow> 'a list \<Rightarrow> error + 'a nested" where
  "apply_keys [] array = Inr (Elements array)"
| "apply_keys (key # keys) array =
     (case group_by_key key array [] of
        Inl e \<Rightarrow> Inl e
      | Inr valuesByKey \<Rightarrow>
          (case for_each_result (apply_keys keys) (for_in valuesByKey) of
             Inl e \<Rightarrow> Inl e
           | Inr result \<Rightarrow> Inr (Object result)))"

primrec entries :: "('a \<Rightarrow> string) list \<Rightarrow> 'a nested \<Rightarrow> 'a nested" where
  "entries [] m = m"
| "entries (key # keys) m =
     (case m of
        Object obj \<Rightarrow> Entries (map (\<lambda>(k, v). (k, entries keys v)) (for_in obj))
      | _ \<Rightarrow> m)"

text \<open>\<open>nest().key(k1)...key(kn).entries(array)\<close>.\<close>

definition nest_entries :: "('a \<Rightarrow> string) list \<Rightarrow> 'a list \<Rightarrow> error + 'a nested" where
  "nest_entries keys array =
     (case apply_keys keys array of Inl e \<Rightarrow> Inl e | Inr m \<Rightarrow> Inr (entries keys m))"

text \<open>The leaf groups of a grouping: the arrays of elements at its leaves.\<close>

fun leaf_groups :: "'a nested \<Rightarrow> 'a list list" where
  "leaf_groups (Elements xs) = [xs]"
| "leaf_groups (Object obj) = concat (map (\<lambda>(k, v). leaf_groups v) obj)"
| "leaf_groups (Entries es) = concat (map (\<lambda>(k, v). leaf_groups v) es)"

text \<open>
  To state what the leaf groups are: the list of the key values of an element, the group
  that an object holds under a key value, and the leaf groups of a grouping together with
  the key values on the path to each.
\<close>

definition key_values :: "('a \<Rightarrow> string) list \<Rightarrow> 'a \<Rightarrow> string list" where
  "key_values keys x = map (\<lambda>k. k x) keys"

definition group_of :: "'a list object \<Rightarrow> string \<Rightarrow> 'a list" where
  "group_of obj k = (case map_of obj k of Some vs \<Rightarrow> vs | None \<Rightarrow> [])"

fun leaves :: "'a nested \<Rightarrow> (string list \<times> 'a list) list" where
  "leaves (Elements xs) = [([], xs)]"
| "leaves (Object obj) = concat (map (\<lambda>(k, v). map (\<lambda>(p, g). (k # p, g)) (leaves v)) obj)"
| "leaves (Entries es) = concat (map (\<lambda>(k, v). map (\<lambda>(p, g). (k # p, g)) (leaves v)) es)"


section \<open>The store: arrays, data objects, pulses\<close>

text \<open>
  The transforms of src/unnamed/part\_001 push into arrays and assign to properties of
  objects that other consumers may hold as well, so arrays, data objects, trees and pulses
  live in a store and are named by their address. A data object (a tuple, a group made by
  \<open>nest\<close>, a link) has its tuple id, once it is ingested, and its fields; a field holds
  \<open>undefined\<close>, a plain value, an integer, a string, or a reference to a data object or to
  an array.
\<close>

type_synonym address = nat

datatype 'v fval = Undef | Val 'v | Num int | Str string | Ref address | ArrayRef address

text \<open>
  A node of a d3 hierarchy: its \<open>data\<close> (a data object), its \<open>children\<close> (the empty list
  stands for the missing \<open>children\<close> property of a leaf) and the other properties that
  \<open>hierarchy\<close> and the layouts set on it (\<open>depth\<close>, \<open>x\<close>, \<open>y\<close>, ...).
\<close>

datatype 'v node =
  Node (data: address) (children: "'v node list") (attrs: "(string \<times> 'v fval) list")

text \<open>
  A tree object: the root node that \<open>hierarchy\<close> or \<open>stratify\<close> returns, with the nodes
  below it, and the table \<open>tree.lookup\<close> that \<open>lookup\<close> hangs on it. The table is keyed by
  tuple id in \<open>Nest\<close> (\<open>Inl\<close>) and by key value in \<open>Stratify\<close> (\<open>Inr\<close>); its entries are
  the nodes as they were when the table was built. A tree object lives in the store: the
  value of a tree source, the property \<open>root\<close> of the source array it hands on and the
  value of a layout operator downstream are references to one and the same object, and
  what one of them writes into it, the others see.
\<close>

record 'v tree =
  tree_root :: "'v node"
  tree_lookup :: "(nat + string) \<rightharpoonup> 'v node"

text \<open>
  Modelled from the spec: the Pulse of vega-dataflow is not among the sources. Section 3
  gives its parts: the sequences \<open>add\<close>, \<open>rem\<close> and \<open>mod\<close>, the set of touched \<open>fields\<close>,
  the \<open>source\<close> reference (absent when there is none) and the \<open>stamp\<close>. The three
  sequences and the source are arrays, held by reference.
\<close>

record pulse =
  p_stamp :: nat
  p_add :: address
  p_rem :: address
  p_mod :: address
  p_fields :: "string list"
  p_source :: "address option"

record 'v store =
  arrays :: "address \<Rightarrow> address list"
  array_root :: "address \<Rightarrow> address option"
  next_array :: address
  obj_tupleid :: "address \<Rightarrow> nat option"
  obj_fields :: "address \<Rightarrow> (string \<rightharpoonup> 'v fval)"
  next_object :: address
  TUPLE_ID :: nat
  trees :: "address \<Rightarrow> 'v tree"
  next_tree :: address
  pulses :: "address \<Rightarrow> pulse"
  next_pulse :: address

text \<open>\<open>[...]\<close> and \<open>a.slice()\<close> make a new array; \<open>a.push(x)\<close> extends the array \<open>a\<close>.\<close>

definition new_array :: "address list \<Rightarrow> 'v store \<Rightarrow> address \<times> 'v store" where
  "new_array xs h =
     (next_array h,
      h\<lparr>arrays := (arrays h)(next_array h := xs),
        array_root := (array_root h)(next_array h := None),
        next_array := Suc (next_array h)\<rparr>)"

definition push :: "address \<Rightarrow> address \<Rightarrow> 'v store \<Rightarrow> 'v store" where
  "push a x h = h\<lparr>arrays := (arrays h)(a := arrays h a @ [x])\<rparr>"

definition slice :: "address \<Rightarrow> 'v store \<Rightarrow> address \<times> 'v store" where
  "slice a h = new_array (arrays h a) h"

definition new_object :: "(string \<rightharpoonup> 'v fval) \<Rightarrow> 'v store \<Rightarrow> address \<times> 'v store" where
  "new_object fs h =
     (next_object h,
      h\<lparr>obj_tupleid := (obj_tupleid h)(next_object h := None),
        obj_fields := (obj_fields h)(next_object h := fs),
        next_object := Suc (next_object h)\<rparr>)"

text \<open>
  A new tree object, as \<open>hierarchy\<close> and \<open>stratify\<close> return it: the root node, no table
  yet. \<open>update_root\<close> is a write into the nodes of a tree object, which leaves the object
  at its address.
\<close>

definition new_tree :: "'v node \<Rightarrow> 'v store \<Rightarrow> address \<times> 'v store" where
  "new_tree root h =
     (next_tree h,
      h\<lparr>trees := (trees h)(next_tree h := \<lparr>tree_root = root, tree_lookup = Map.empty\<rparr>),
        next_tree := Suc (next_tree h)\<rparr>)"

definition update_root :: "address \<Rightarrow> 'v node \<Rightarrow> 'v store \<Rightarrow> 'v store" where
  "update_root t root h = h\<lparr>trees := (trees h)(t := (trees h t)\<lparr>tree_root := root\<rparr>)\<rparr>"

definition new_pulse :: "pulse \<Rightarrow> 'v store \<Rightarrow> address \<times> 'v store" where
  "new_pulse p h =
     (next_pulse h,
      h\<lparr>pulses := (pulses h)(next_pulse h := p), next_pulse := Suc (next_pulse h)\<rparr>)"

subsection \<open>Tuple identity\<close>

text \<open>
  Modelled from the spec: \<open>tupleid\<close>, \<open>isTuple\<close> and \<open>ingest\<close> of vega-dataflow are not
  among the sources. Section 4.1: \<open>tupleid(record)\<close> returns the identity or an unset
  sentinel (\<open>None\<close>); \<open>ingest(record)\<close> assigns a new identity if the record has none and
  returns the record; identities are minted nowhere else and never reused (a counter).
\<close>

definition tupleid :: "'v store \<Rightarrow> address \<Rightarrow> nat option" where
  "tupleid h t = obj_tupleid h t"

definition isTuple :: "'v store \<Rightarrow> address \<Rightarrow> bool" where
  "isTuple h t = (tupleid h t \<noteq> None)"

definition ingest :: "address \<Rightarrow> 'v store \<Rightarrow> 'v store" where
  "ingest t h =
     (if isTuple h t then h
      else h\<lparr>obj_tupleid := (obj_tupleid h)(t \<mapsto> TUPLE_ID h), TUPLE_ID := Suc (TUPLE_ID h)\<rparr>)"

subsection \<open>Pulse operations\<close>

datatype flag = ADD | REM | MOD | REFLOW | SOURCE | NO_SOURCE | NO_FIELDS

text \<open>
  Modelled from the spec: the flag constants of the Pulse are not among the sources. A
  combination of flags is the list of its members. Section 4.2 names \<open>ALL\<close> (here \<open>ALL_FLAGS\<close>) as the union of
  \<open>ADD\<close>, \<open>REM\<close>, \<open>MOD\<close> and \<open>SOURCE\<close>.
\<close>

definition ALL_FLAGS :: "flag list" where "ALL_FLAGS = [ADD, REM, MOD, SOURCE]"
definition ADD_REM :: "flag list" where "ADD_REM = [ADD, REM]"

text \<open>
  Modelled from the spec: \<open>fork(flags)\<close> is not among the sources. Section 4.2: a new pulse
  sharing the same stamp and source reference, carrying over \<open>add\<close>, \<open>rem\<close>, \<open>mod\<close> and
  \<open>fields\<close> as the flags ask; a sequence that is not carried over starts as a new empty
  array. The flags \<open>NO_SOURCE\<close> and \<open>NO_FIELDS\<close> leave the source and the fields out.
\<close>

definition carry :: "flag list \<Rightarrow> flag \<Rightarrow> address \<Rightarrow> 'v store \<Rightarrow> address \<times> 'v store" where
  "carry flags f a h = (if f \<in> set flags then (a, h) else new_array [] h)"

definition fork :: "flag list \<Rightarrow> address \<Rightarrow> 'v store \<Rightarrow> address \<times> 'v store" where
  "fork flags pulse h =
     (let src = pulses h pulse;
          (a, h1) = carry flags ADD (p_add src) h;
          (r, h2) = carry flags REM (p_rem src) h1;
          (m, h3) = carry flags MOD (p_mod src) h2
      in new_pulse
           \<lparr>p_stamp = p_stamp src, p_add = a, p_rem = r, p_mod = m,
            p_fields = (if NO_FIELDS \<in> set flags then [] else p_fields src),
            p_source = (if NO_SOURCE \<in> set flags then None else p_source src)\<rparr> h3)"

text \<open>
  Modelled from the spec: \<open>clone()\<close> is not among the sources. Section 4.2: a deep-enough
  copy to let a consumer locally mutate the sequences without corrupting the original.
  The copy has new arrays with the elements of \<open>add\<close>, \<open>rem\<close> and \<open>mod\<close>, and of the source
  when there is one (\<open>Nest\<close> pushes into the source of its clone).
\<close>

definition clone :: "address \<Rightarrow> 'v store \<Rightarrow> address \<times> 'v store" where
  "clone pulse h =
     (let src = pulses h pulse;
          (a, h1) = slice (p_add src) h;
          (r, h2) = slice (p_rem src) h1;
          (m, h3) = slice (p_mod src) h2;
          (s, h4) = (case p_source src of
                       None \<Rightarrow> (None, h3)
                     | Some sa \<Rightarrow> (case slice sa h3 of (sa', h') \<Rightarrow> (Some sa', h')))
      in new_pulse
           \<lparr>p_stamp = p_stamp src, p_add = a, p_rem = r, p_mod = m,
            p_fields = p_fields src, p_source = s\<rparr> h4)"

text \<open>
  Modelled from the spec: \<open>materialize(flags)\<close> is not among the sources. Section 4.2: it
  forces the source to reflect the current full tuple set. The pulses of this model carry
  no deferred changes, their source is the full tuple set already, so the call returns the
  pulse it was called on and changes nothing.
\<close>

definition materialize :: "flag list \<Rightarrow> address \<Rightarrow> 'v store \<Rightarrow> address \<times> 'v store" where
  "materialize flags pulse h = (pulse, h)"

text \<open>
  Modelled from the spec: \<open>changed(flags)\<close> and \<open>modified(fields)\<close> are not among the
  sources. By section 4.2 a pulse with no add, rem and mod and with empty fields is a no-op;
  \<open>changed\<close> tells whether one of the selected sequences has an element (all three when
  called without flags), \<open>modified\<close> whether there are modified tuples and one of the given
  fields is among the touched ones.
\<close>

definition changed :: "'v store \<Rightarrow> address \<Rightarrow> flag list \<Rightarrow> bool" where
  "changed h pulse flags =
     (let p = pulses h pulse in
      (ADD \<in> set flags \<and> arrays h (p_add p) \<noteq> [])
      \<or> (REM \<in> set flags \<and> arrays h (p_rem p) \<noteq> [])
      \<or> (MOD \<in> set flags \<and> arrays h (p_mod p) \<noteq> []))"

definition modified :: "'v store \<Rightarrow> address \<Rightarrow> string list \<Rightarrow> bool" where
  "modified h pulse fs =
     (let p = pulses h pulse in
      arrays h (p_mod p) \<noteq> [] \<and> list_ex (\<lambda>f. f \<in> set (p_fields p)) fs)"

text \<open>
  Modelled from the spec: \<open>visit(flags, fn)\<close> is not among the sources. Section 4.2: it
  applies \<open>fn\<close> over the selected sequences in a fixed order: removals, then additions,
  then modifications, then (if requested) the full source. \<open>visit_calls\<close> is the list of
  the calls of \<open>fn\<close>, each with the sequence its argument comes from; \<open>visit\<close> runs a
  callback that updates a state \<open>'s\<close> over them.
\<close>

definition visit_calls :: "'v store \<Rightarrow> address \<Rightarrow> flag list \<Rightarrow> (flag \<times> address) list" where
  "visit_calls h pulse flags =
     (let p = pulses h pulse in
      (if REM \<in> set flags then map (Pair REM) (arrays h (p_rem p)) else [])
      @ (if ADD \<in> set flags then map (Pair ADD) (arrays h (p_add p)) else [])
      @ (if MOD \<in> set flags then map (Pair MOD) (arrays h (p_mod p)) else [])
      @ (if SOURCE \<in> set flags
         then (case p_source p of None \<Rightarrow> [] | Some s \<Rightarrow> map (Pair SOURCE) (arrays h s))
         else []))"



section \<open>Tree sources and layouts (src/unnamed/part\_001)\<close>

subsection \<open>d3-hierarchy\<close>

text \<open>
  \<open>hierarchy\<close> and the methods of its nodes come from the library d3-hierarchy.
  \<open>node.each(f)\<close> calls \<open>f\<close> on the node and its descendants in breadth-first order.
  \<open>hierarchy(data, children)\<close> makes a node for \<open>data\<close> and for every datum reached
  through \<open>children\<close>; a node gets the property \<open>children\<close> only where that array is not
  empty, and every node gets its \<open>depth\<close> and \<open>height\<close>.
\<close>

function each_from :: "'v node list \<Rightarrow> 'v node list" where
  "each_from [] = []"
| "each_from (n # queue) = n # each_from (queue @ children n)"
  by pat_completeness auto
termination
proof (relation "measure (\<lambda>q. sum_list (map size q))")
  fix n :: "'v node" and queue :: "'v node list"
  show "(queue @ children n, n # queue) \<in> measure (\<lambda>q. sum_list (map size q))"
    by (cases n) (simp add: size_list_conv_sum_list)
qed simp

definition each :: "'v node \<Rightarrow> 'v node list" where
  "each tree = each_from [tree]"

fun height_of :: "'v node \<Rightarrow> int" where
  "height_of (Node d cs a) = (if cs = [] then 0 else 1 + Max (set (map height_of cs)))"

fun annotate :: "int \<Rightarrow> 'v node \<Rightarrow> 'v node" where
  "annotate depth (Node d cs a) =
     Node d (map (annotate (depth + 1)) cs)
       [(''depth'', Num depth), (''height'', Num (height_of (Node d cs a)))]"




text \<open>
  The function of the module: \<open>lookup(tree, key, filter)\<close> builds the table from the keys
  of the data that pass the filter to their nodes, a later node replacing an earlier one
  of the same key, and hangs it on the tree: a write into the tree object.
\<close>

definition lookup ::
  "address \<Rightarrow> (address \<Rightarrow> nat + string) \<Rightarrow> (address \<Rightarrow> bool) \<Rightarrow> 'v store \<Rightarrow> 'v store" where
  "lookup tree key filter' h =
     h\<lparr>trees := (trees h)(tree := (trees h tree)\<lparr>tree_lookup :=
          fold (\<lambda>node m. let t = data node in if filter' t then m(key t \<mapsto> node) else m)
            (each (tree_root (trees h tree))) Map.empty\<rparr>)\<rparr>"

subsection \<open>Nest\<close>

text \<open>
  The grouping of \<open>nest()\<close> in the store. \<open>apply\<close> collects the elements of a key value
  in a new array, \<open>entries\<close> makes an object \<open>{key, values}\<close> for every key value and
  collects the objects of a level in a new array; \<open>hierarchy\<close> then makes a node for each
  of these objects and for each element. \<open>build_nested\<close> gives the array of a level and
  the nodes of its members. An element is taken to have no \<open>values\<close> field of its own,
  so its node is a leaf.
\<close>

fun build_nested :: "address nested \<Rightarrow> 'v store \<Rightarrow> (address \<times> 'v node list) \<times> 'v store"
  and build_entries ::
    "(string \<times> address nested) list \<Rightarrow> 'v store \<Rightarrow> (address list \<times> 'v node list) \<times> 'v store"
  where
  "build_nested (Elements xs) h =
     (case new_array xs h of (a, h1) \<Rightarrow> ((a, map (\<lambda>x. Node x [] []) xs), h1))"
| "build_nested (Entries es) h =
     (case build_entries es h of
        ((objs, nodes), h1) \<Rightarrow> (case new_array objs h1 of (a, h2) \<Rightarrow> ((a, nodes), h2)))"
| "build_nested (Object obj) h =
     (case new_array [] h of (a, h1) \<Rightarrow> ((a, []), h1))"
| "build_entries [] h = (([], []), h)"
| "build_entries ((k, v) # es) h =
     (case build_nested v h of
        ((av, nodes_v), h1) \<Rightarrow>
          (case new_object [''key'' \<mapsto> Str k, ''values'' \<mapsto> ArrayRef av] h1 of
             (obj, h2) \<Rightarrow>
               (case build_entries es h2 of
                  ((objs, nodes), h3) \<Rightarrow> ((obj # objs, Node obj nodes_v [] # nodes), h3))))"

text \<open>
  \<open>hierarchy({values: nest()....entries(source)}, children)\<close> with
  \<open>children = n => n.values\<close>: a new tree object. Without keys \<open>entries\<close> returns the
  source array itself.
\<close>

definition nest_hierarchy ::
  "(address \<Rightarrow> string) list \<Rightarrow> address \<Rightarrow> 'v store \<Rightarrow> error + (address \<times> 'v store)" where
  "nest_hierarchy keys source h =
     (case nest_entries keys (arrays h source) of
        Inl e \<Rightarrow> Inl e
      | Inr grouping \<Rightarrow>
          (case (case grouping of
                   Elements xs \<Rightarrow> ((source, map (\<lambda>x. Node x [] []) xs), h)
                 | _ \<Rightarrow> build_nested grouping h) of
             ((a, nodes), h1) \<Rightarrow>
               (case new_object [''values'' \<mapsto> ArrayRef a] h1 of
                  (root, h2) \<Rightarrow> Inr (new_tree (annotate 0 (Node root nodes [])) h2))))"

text \<open>
  The parameters of \<open>Nest\<close>: \<open>array(_.keys)\<close>, each key an accessor on the fields of a
  tuple with the coercion to a string built in, \<open>_.generate\<close> and \<open>_.modified()\<close>.
\<close>

record 'v nest_params =
  nest_keys :: "((string \<rightharpoonup> 'v fval) \<Rightarrow> string) list"
  nest_generate :: bool
  nest_modified :: bool

text \<open>The two callbacks of \<open>tree.each\<close> in \<open>Nest.transform\<close>.\<close>

definition collect_rem :: "address \<Rightarrow> 'v node \<Rightarrow> 'v store \<Rightarrow> 'v store" where
  "collect_rem out_rem node h =
     (if children node \<noteq> [] \<and> isTuple h (data node) then push out_rem (data node) h else h)"

definition collect_add :: "address \<Rightarrow> address \<Rightarrow> 'v node \<Rightarrow> 'v store \<Rightarrow> 'v store" where
  "collect_add out_add out_source node h =
     (if children node \<noteq> []
      then push out_source (data node) (push out_add (data node) (ingest (data node) h))
      else h)"

definition tupleid_key :: "'v store \<Rightarrow> address \<Rightarrow> nat + string" where
  "tupleid_key h t = (case tupleid h t of Some i \<Rightarrow> Inl i | None \<Rightarrow> Inr ''undefined'')"

text \<open>
  \<open>Nest.transform(_, pulse)\<close> on the operator \<open>this\<close> (its \<open>value\<close> is a reference to the
  tree, or \<open>null\<close>) and the store: the result or the error thrown, the operator and the
  store afterwards.
\<close>

definition Nest_transform ::
  "'v nest_params \<Rightarrow> address \<Rightarrow> address option operator \<times> 'v store
     \<Rightarrow> (error + address) \<times> address option operator \<times> 'v store" where
  "Nest_transform params pulse = (\<lambda>(this, h).
     if p_source (pulses h pulse) = None
     then (Inl (Error ''Nest transform requires an upstream data source.''), this, h)
     else
       (let gen = nest_generate params;
            modif = nest_modified params;
            (out, h1) = clone pulse h;
            tree = val this;
            out_rem = p_rem (pulses h1 out);
            out_add = p_add (pulses h1 out)
        in case p_source (pulses h1 out) of
             None \<Rightarrow> (Inl (TypeError ''Cannot read properties of null''), this, h1)
           | Some out_source \<Rightarrow>
               if tree = None \<or> modif \<or> changed h1 pulse ALL_FLAGS
               then
                 (let h2 = (case tree of
                              Some t \<Rightarrow>
                                fold (collect_rem out_rem) (each (tree_root (trees h1 t))) h1
                            | None \<Rightarrow> h1)
                  in case nest_hierarchy (map (\<lambda>k t. k (obj_fields h2 t)) (nest_keys params))
                            out_source h2 of
                       Inl e \<Rightarrow> (Inl e, this, h2)
                     | Inr (tree', h3) \<Rightarrow>
                         (let h4 = (if gen
                                    then fold (collect_add out_add out_source)
                                           (each (tree_root (trees h3 tree'))) h3
                                    else h3);
                              h5 = lookup tree' (tupleid_key h4) (isTuple h4) h4
                          in (Inr out,
                              this\<lparr>val := Some tree'\<rparr>,
                              h5\<lparr>array_root := (array_root h5)(out_source \<mapsto> tree')\<rparr>)))
               else (Inr out, this, h1\<lparr>array_root := (array_root h1)(out_source := tree)\<rparr>)))"

subsection \<open>Stratify\<close>

text \<open>
  A field accessor with its \<open>fields\<close> property. The accessor gives the key of a tuple
  as d3 and the lookup table use it, coerced to a string, or nothing for \<open>null\<close> and
  \<open>undefined\<close>.
\<close>

record 'v accessor =
  acc_get :: "(string \<rightharpoonup> 'v fval) \<Rightarrow> string option"
  acc_fields :: "string list"

record 'v stratify_params =
  strat_key :: "'v accessor"
  strat_parentKey :: "'v accessor"
  strat_modified :: bool

definition key_of :: "'v accessor \<Rightarrow> 'v store \<Rightarrow> address \<Rightarrow> string option" where
  "key_of k h t = acc_get k (obj_fields h t)"

definition name_key :: "'v accessor \<Rightarrow> 'v store \<Rightarrow> address \<Rightarrow> nat + string" where
  "name_key k h t = Inr (case key_of k h t of Some s \<Rightarrow> s | None \<Rightarrow> ''undefined'')"

definition key_truthy :: "'v accessor \<Rightarrow> 'v store \<Rightarrow> address \<Rightarrow> bool" where
  "key_truthy k h t = (case key_of k h t of Some s \<Rightarrow> s \<noteq> [] | None \<Rightarrow> False)"

text \<open>
  The tree of \<open>Stratify\<close> for the source array \<open>src\<close>:
  \<open>lookup(stratify().id(_.key).parentId(_.parentKey)(out.source), _.key, truthy)\<close> when
  the source has elements, \<open>lookup(stratify()([{}]), _.key, _.key)\<close> otherwise. The first
  argument is \<open>stratify\<close> of d3-hierarchy: from the accessors of the id and of the parent
  id and the data it builds the tree, or throws (no root, several roots, a missing
  parent, a cycle).
\<close>

definition stratify_tree ::
  "((address \<Rightarrow> string option) \<Rightarrow> (address \<Rightarrow> string option) \<Rightarrow> address list \<Rightarrow> error + 'v node)
     \<Rightarrow> 'v stratify_params \<Rightarrow> address \<Rightarrow> 'v store \<Rightarrow> (error + address) \<times> 'v store" where
  "stratify_tree stratify params src h =
     (if arrays h src \<noteq> []
      then (case stratify (key_of (strat_key params) h) (key_of (strat_parentKey params) h)
                   (arrays h src) of
              Inl e \<Rightarrow> (Inl e, h)
            | Inr root \<Rightarrow>
                (case new_tree root h of
                   (tree, h1) \<Rightarrow>
                     (Inr tree, lookup tree (name_key (strat_key params) h1) (\<lambda>t. True) h1)))
      else (case new_object Map.empty h of
              (obj, h1) \<Rightarrow>
                (case stratify (\<lambda>t. None) (\<lambda>t. None) [obj] of
                   Inl e \<Rightarrow> (Inl e, h1)
                 | Inr root \<Rightarrow>
                     (case new_tree root h1 of
                        (tree, h2) \<Rightarrow>
                          (Inr tree,
                           lookup tree (name_key (strat_key params) h2)
                             (key_truthy (strat_key params) h2) h2)))))"

text \<open>\<open>Stratify.transform(_, pulse)\<close>.\<close>

definition Stratify_transform ::
  "((address \<Rightarrow> string option) \<Rightarrow> (address \<Rightarrow> string option) \<Rightarrow> address list \<Rightarrow> error + 'v node)
     \<Rightarrow> 'v stratify_params \<Rightarrow> address \<Rightarrow> address option operator \<times> 'v store
     \<Rightarrow> (error + address) \<times> address option operator \<times> 'v store" where
  "Stratify_transform stratify params pulse = (\<lambda>(this, h).
     if p_source (pulses h pulse) = None
     then (Inl (Error ''Stratify transform requires an upstream data source.''), this, h)
     else
       (let tree = val this;
            modif = strat_modified params;
            (out0, h1) = fork ALL_FLAGS pulse h;
            (out, h2) = materialize [SOURCE] out0 h1;
            run = (tree = None \<or> modif \<or> changed h2 pulse ADD_REM
                   \<or> modified h2 pulse (acc_fields (strat_key params))
                   \<or> modified h2 pulse (acc_fields (strat_parentKey params)))
        in case p_source (pulses h2 out) of
             None \<Rightarrow> (Inl (TypeError ''Cannot read properties of null (reading slice)''), this, h2)
           | Some src \<Rightarrow>
               (let (src', h3) = slice src h2;
                    h4 = h3\<lparr>pulses := (pulses h3)(out := (pulses h3 out)\<lparr>p_source := Some src'\<rparr>)\<rparr>
                in if run
                   then (case stratify_tree stratify params src' h4 of
                           (Inl e, h5) \<Rightarrow> (Inl e, this, h5)
                         | (Inr tree', h5) \<Rightarrow>
                             (Inr out, this\<lparr>val := Some tree'\<rparr>,
                              h5\<lparr>array_root := (array_root h5)(src' \<mapsto> tree')\<rparr>))
                   else (Inr out, this, h4\<lparr>array_root := (array_root h4)(src' := tree)\<rparr>))))"

subsection \<open>TreeLinks\<close>








subsection \<open>HierarchyLayout and its subclasses\<close>


























subsection \<open>The definitions of the transforms\<close>

text \<open>
  The \<open>Definition\<close> object of each exported transform: its \<open>type\<close>, the metadata flags
  it sets to \<open>true\<close>, and its parameters with their name, their type and, for an \<open>enum\<close>,
  its values (the other properties of a parameter are left out).
\<close>

record param_definition =
  param_name :: string
  param_type :: string
  param_values :: "string list"

record transform_definition =
  def_type :: string
  def_metadata :: "string list"
  def_params :: "param_definition list"

definition param :: "string \<Rightarrow> string \<Rightarrow> param_definition" where
  "param n t = \<lparr>param_name = n, param_type = t, param_values = []\<rparr>"

definition Nest_Definition :: transform_definition where
  "Nest_Definition =
     \<lparr>def_type = ''Nest'', def_metadata = [''treesource'', ''changes''],
      def_params = [param ''keys'' ''field'', param ''generate'' ''boolean'']\<rparr>"

definition Pack_Definition :: transform_definition where
  "Pack_Definition =
     \<lparr>def_type = ''Pack'', def_metadata = [''tree'', ''modifies''],
      def_params = [param ''field'' ''field'', param ''sort'' ''compare'',
        param ''padding'' ''number'', param ''radius'' ''field'', param ''size'' ''number'',
        param ''as'' ''string'']\<rparr>"

definition Partition_Definition :: transform_definition where
  "Partition_Definition =
     \<lparr>def_type = ''Partition'', def_metadata = [''tree'', ''modifies''],
      def_params = [param ''field'' ''field'', param ''sort'' ''compare'',
        param ''padding'' ''number'', param ''round'' ''boolean'', param ''size'' ''number'',
        param ''as'' ''string'']\<rparr>"

definition Stratify_Definition :: transform_definition where
  "Stratify_Definition =
     \<lparr>def_type = ''Stratify'', def_metadata = [''treesource''],
      def_params = [param ''key'' ''field'', param ''parentKey'' ''field'']\<rparr>"

definition Tree_Definition :: transform_definition where
  "Tree_Definition =
     \<lparr>def_type = ''Tree'', def_metadata = [''tree'', ''modifies''],
      def_params = [param ''field'' ''field'', param ''sort'' ''compare'',
        \<lparr>param_name = ''method'', param_type = ''enum'', param_values = [''tidy'', ''cluster'']\<rparr>,
        param ''size'' ''number'', param ''nodeSize'' ''number'',
        param ''separation'' ''boolean'', param ''as'' ''string'']\<rparr>"

definition TreeLinks_Definition :: transform_definition where
  "TreeLinks_Definition =
     \<lparr>def_type = ''TreeLinks'', def_metadata = [''tree'', ''generates'', ''changes''],
      def_params = []\<rparr>"

definition Treemap_Definition :: transform_definition where
  "Treemap_Definition =
     \<lparr>def_type = ''Treemap'', def_metadata = [''tree'', ''modifies''],
      def_params = [param ''field'' ''field'', param ''sort'' ''compare'',
        \<lparr>param_name = ''method'', param_type = ''enum'',
         param_values = [''squarify'', ''resquarify'', ''binary'', ''dice'', ''slice'', ''slicedice'']\<rparr>,
        param ''padding'' ''number'', param ''paddingInner'' ''number'',
        param ''paddingOuter'' ''number'', param ''paddingTop'' ''number'',
        param ''paddingRight'' ''number'', param ''paddingBottom'' ''number'',
        param ''paddingLeft'' ''number'', param ''ratio'' ''number'',
        param ''round'' ''boolean'', param ''size'' ''number'', param ''as'' ''string'']\<rparr>"

text \<open>
  The exports of the module, \<open>export {Nest as nest, Pack as pack, ...}\<close>, which
  packages/vega/index.js adds to the registry \<open>transforms\<close>.
\<close>

definition exported_definitions :: "(string \<times> transform_definition) list" where
  "exported_definitions =
     [(''nest'', Nest_Definition), (''pack'', Pack_Definition),
      (''partition'', Partition_Definition), (''stratify'', Stratify_Definition),
      (''tree'', Tree_Definition), (''treelinks'', TreeLinks_Definition),
      (''treemap'', Treemap_Definition)]"


section \<open>Well-formed inputs and frames\<close>

text \<open>
  A pulse handed to a transform is an object of the store, and so are its arrays.
\<close>

definition valid_pulse :: "'v store \<Rightarrow> address \<Rightarrow> bool" where
  "valid_pulse h pulse =
     (pulse < next_pulse h
      \<and> p_add (pulses h pulse) < next_array h
      \<and> p_rem (pulses h pulse) < next_array h
      \<and> p_mod (pulses h pulse) < next_array h
      \<and> (case p_source (pulses h pulse) of None \<Rightarrow> True | Some s \<Rightarrow> s < next_array h))"

text \<open>
  \<open>frame h h'\<close>: the store \<open>h'\<close> has every array and every pulse of \<open>h\<close> as it is in \<open>h\<close>.
\<close>

definition frame :: "'v store \<Rightarrow> 'v store \<Rightarrow> bool" where
  "frame h h' =
     (next_array h \<le> next_array h' \<and> next_pulse h \<le> next_pulse h'
      \<and> (\<forall>a < next_array h. arrays h' a = arrays h a)
      \<and> (\<forall>p < next_pulse h. pulses h' p = pulses h p))"

text \<open>
  \<open>same_pulses h h'\<close>: the store \<open>h'\<close> has the pulse objects of \<open>h\<close> and no other.
  \<open>derived_pulse h h' pulse out\<close>: the pulse \<open>out\<close> is an object made since \<open>h\<close>, so none
  of the pulses of \<open>h\<close>, and it has the stamp and the fields of \<open>pulse\<close>, as \<open>fork\<close> and
  \<open>clone\<close> give them to the pulse they make.
\<close>

definition same_pulses :: "'v store \<Rightarrow> 'v store \<Rightarrow> bool" where
  "same_pulses h h' = (pulses h' = pulses h \<and> next_pulse h' = next_pulse h)"

definition derived_pulse :: "'v store \<Rightarrow> 'v store \<Rightarrow> address \<Rightarrow> address \<Rightarrow> bool" where
  "derived_pulse h h' pulse out =
     (next_pulse h \<le> out \<and> out < next_pulse h'
      \<and> p_stamp (pulses h' out) = p_stamp (pulses h pulse)
      \<and> p_fields (pulses h' out) = p_fields (pulses h pulse))"

text \<open>
  \<open>mints_no_identity h h'\<close>: from \<open>h\<close> to \<open>h'\<close> no tuple identity has been minted: the
  counter of the identities has not moved, and an object that has an identity in \<open>h'\<close>
  has it in \<open>h\<close>.
\<close>

definition mints_no_identity :: "'v store \<Rightarrow> 'v store \<Rightarrow> bool" where
  "mints_no_identity h h' =
     (TUPLE_ID h' = TUPLE_ID h
      \<and> (\<forall>t. obj_tupleid h' t \<noteq> None \<longrightarrow> obj_tupleid h' t = obj_tupleid h t))"



text \<open>The order of the sequences within one \<open>visit\<close>: \<open>rem\<close>, \<open>add\<close>, \<open>mod\<close>, source.\<close>

fun visit_rank :: "flag \<Rightarrow> nat" where
  "visit_rank REM = 0"
| "visit_rank ADD = 1"
| "visit_rank MOD = 2"
| "visit_rank SOURCE = 3"
| "visit_rank _ = 4"

text \<open>
  A store for evaluating the operations on a concrete input: the tuples 10 to 13 with the
  tuple ids 1 to 4 and a field \<open>k\<close>, and the pulse 0 that adds 10, removes 11, modifies
  12 and has the source 10, 12, 13.
\<close>

definition example_store :: "nat store" where
  "example_store =
     \<lparr>arrays = (\<lambda>_. [])(0 := [10], 1 := [11], 2 := [12], 3 := [10, 12, 13]),
      array_root = (\<lambda>_. None),
      next_array = 4,
      obj_tupleid = (\<lambda>_. None)(10 := Some 1, 11 := Some 2, 12 := Some 3, 13 := Some 4),
      obj_fields = (\<lambda>_. Map.empty)
        (10 := [''k'' \<mapsto> Str ''a''], 11 := [''k'' \<mapsto> Str ''b''],
         12 := [''k'' \<mapsto> Str ''a''], 13 := [''k'' \<mapsto> Str ''b'']),
      next_object = 14,
      TUPLE_ID = 5,
      trees = (\<lambda>_. \<lparr>tree_root = Node 0 [] [], tree_lookup = Map.empty\<rparr>),
      next_tree = 0,
      pulses = (\<lambda>_. \<lparr>p_stamp = 1, p_add = 0, p_rem = 1, p_mod = 2, p_fields = [''k''],
                       p_source = Some 3\<rparr>),
      next_pulse = 1\<rparr>"


definition example_tree :: "nat tree" where
  "example_tree = \<lparr>tree_root = Node 13 [Node 10 [] [], Node 12 [] []] [], tree_lookup = Map.empty\<rparr>"






text \<open>
  A no-op pulse (section 4.2 of the spec): no add, rem and mod, and no fields touched.
\<close>

definition noop_pulse :: "'v store \<Rightarrow> address \<Rightarrow> bool" where
  "noop_pulse h pulse =
     (arrays h (p_add (pulses h pulse)) = [] \<and> arrays h (p_rem (pulses h pulse)) = []
      \<and> arrays h (p_mod (pulses h pulse)) = [] \<and> p_fields (pulses h pulse) = [])"

text \<open>
  More inputs for evaluation: parameters of Nest without keys that ask for the generated
  nodes, a store whose pulse is a no-op and which holds the tree object 0, and parameters
  of Stratify.
\<close>

definition generate_params :: "nat nest_params" where
  "generate_params = \<lparr>nest_keys = [], nest_generate = True, nest_modified = False\<rparr>"

definition quiet_store :: "nat store" where
  "quiet_store =
     \<lparr>arrays = (\<lambda>_. [])(3 := [10, 12, 13]),
      array_root = (\<lambda>_. None),
      next_array = 4,
      obj_tupleid = (\<lambda>_. None)(10 := Some 1, 12 := Some 3, 13 := Some 4),
      obj_fields = (\<lambda>_. Map.empty),
      next_object = 14,
      TUPLE_ID = 5,
      trees = (\<lambda>_. example_tree),
      next_tree = 1,
      pulses = (\<lambda>_. \<lparr>p_stamp = 2, p_add = 0, p_rem = 1, p_mod = 2, p_fields = [],
                       p_source = Some 3\<rparr>),
      next_pulse = 1\<rparr>"

definition quiet_keys :: "nat stratify_params" where
  "quiet_keys =
     \<lparr>strat_key = \<lparr>acc_get = (\<lambda>fs. None), acc_fields = [''id'']\<rparr>,
      strat_parentKey = \<lparr>acc_get = (\<lambda>fs. None), acc_fields = [''parent'']\<rparr>,
      strat_modified = False\<rparr>"


section \<open>The operator graph\<close>

text \<open>
  Modelled from the spec: the Dataflow of vega-dataflow, which owns the operators and
  their ranks, is not among the sources. Section 3: an operator has a \<open>rank\<close> and its
  \<open>targets\<close>, the operators that depend on it; the graph is the aggregate of the
  operators and their edges. Operators are named by numbers given out at registration.
\<close>

record graph =
  operators :: "nat list"
  rank :: "nat \<Rightarrow> nat"
  targets :: "nat \<Rightarrow> nat list"
  next_id :: nat

definition empty_graph :: graph where
  "empty_graph = \<lparr>operators = [], rank = (\<lambda>_. 0), targets = (\<lambda>_. []), next_id = 0\<rparr>"

text \<open>
  Modelled from the spec: section 4.3, \<open>addOperator(op, params)\<close> inserts a node, wires
  edges from each operator-valued parameter to \<open>op\<close>, and assigns \<open>op.rank\<close> as one
  greater than the maximum rank among its parameter operators (or 0 if none). By section
  7 a reference to an unknown operator is a configuration error, raised when the
  operator is added. \<open>params\<close> is the list of the operator-valued parameters.
\<close>

definition addOperator :: "graph \<Rightarrow> nat list \<Rightarrow> error + (nat \<times> graph)" where
  "addOperator g params =
     (if \<not> list_all (\<lambda>p. p \<in> set (operators g)) params
      then Inl (Error ''Unknown operator reference.'')
      else
        (let op = next_id g;
             r = (if params = [] then 0 else Suc (fold max (map (rank g) params) 0))
         in Inr (op,
                 g\<lparr>operators := operators g @ [op],
                   rank := (rank g)(op := r),
                   targets := (\<lambda>x. if x = op then []
                                    else if x \<in> set params then targets g x @ [op]
                                    else targets g x),
                   next_id := Suc op\<rparr>)))"

text \<open>
  Modelled from the spec: section 4.3, the re-ranking is a forward topological
  re-numbering starting at \<open>source\<close> over all operators transitively reachable through
  existing edges, detecting a cycle (an operator reachable from itself) and signaling a
  fatal configuration error rather than looping forever. The walk keeps the operators it
  is currently visiting (section 9); a target gets a rank above the rank of the operator
  it depends on, and the walk goes on from it.
\<close>

function renumber :: "graph \<Rightarrow> nat list \<Rightarrow> nat \<Rightarrow> (nat \<Rightarrow> nat) \<Rightarrow> error + (nat \<Rightarrow> nat)"
  and renumber_targets ::
    "graph \<Rightarrow> nat list \<Rightarrow> nat \<Rightarrow> nat list \<Rightarrow> (nat \<Rightarrow> nat) \<Rightarrow> error + (nat \<Rightarrow> nat)" where
  "renumber g visiting op r = renumber_targets g (op # visiting) op (targets g op) r"
| "renumber_targets g visiting op [] r = Inr r"
| "renumber_targets g visiting op (t # ts) r =
     (if t \<in> set visiting then Inl (Error ''Cycle detected in dataflow graph.'')
      else if t \<notin> set (operators g) then Inl (Error ''Unknown operator reference.'')
      else (case renumber g visiting t (r(t := max (r t) (Suc (r op)))) of
              Inl e \<Rightarrow> Inl e
            | Inr r' \<Rightarrow> renumber_targets g visiting op ts r'))"
  by pat_completeness auto
termination
proof (relation "measures
    [\<lambda>x. case x of
            Inl (g, visiting, op, r) \<Rightarrow> card (set (operators g) - set (op # visiting))
          | Inr (g, visiting, op, ts, r) \<Rightarrow> card (set (operators g) - set visiting),
     \<lambda>x. case x of
            Inl (g, visiting, op, r) \<Rightarrow> length (targets g op) + 2
          | Inr (g, visiting, op, ts, r) \<Rightarrow> length ts + 1]", goal_cases)
  case (3 g visiting op t ts r)
  then have "card (set (operators g) - set (t # visiting)) < card (set (operators g) - set visiting)"
    by (intro psubset_card_mono) auto
  then show ?case by simp
qed simp_all


definition rerank :: "graph \<Rightarrow> nat \<Rightarrow> error + graph" where
  "rerank g source =
     (case renumber g [] source (rank g) of
        Inl e \<Rightarrow> Inl e
      | Inr r \<Rightarrow> Inr (g\<lparr>rank := r\<rparr>))"

text \<open>
  Modelled from the spec: section 4.3, \<open>connect(source, target)\<close> adds an edge after
  construction; if \<open>target.rank <= source.rank\<close>, the graph must re-rank.
\<close>

definition connect :: "graph \<Rightarrow> nat \<Rightarrow> nat \<Rightarrow> error + graph" where
  "connect g source target =
     (if source \<notin> set (operators g) \<or> target \<notin> set (operators g)
      then Inl (Error ''Unknown operator reference.'')
      else
        (let g1 = g\<lparr>targets := (targets g)(source := targets g source @ [target])\<rparr>
         in if rank g target \<le> rank g source then rerank g1 source else Inr g1))"

text \<open>
  Modelled from the spec: section 4.3, removing an operator detaches all its edges first;
  dependents keep their rank.
\<close>

definition removeOperator :: "graph \<Rightarrow> nat \<Rightarrow> graph" where
  "removeOperator g op =
     g\<lparr>operators := removeAll op (operators g),
       targets := (\<lambda>x. if x = op then [] else removeAll op (targets g x))\<rparr>"

text \<open>
  The mutations of a graph, and a run of them from a graph on: the run stops at the
  first configuration error, which is fatal to the construction.
\<close>

datatype mutation = AddOperator "nat list" | Connect nat nat | RemoveOperator nat

fun mutate :: "graph \<Rightarrow> mutation \<Rightarrow> error + graph" where
  "mutate g (AddOperator params) =
     (case addOperator g params of Inl e \<Rightarrow> Inl e | Inr (op, g') \<Rightarrow> Inr g')"
| "mutate g (Connect source target) = connect g source target"
| "mutate g (RemoveOperator op) = Inr (removeOperator g op)"

fun mutations :: "graph \<Rightarrow> mutation list \<Rightarrow> error + graph" where
  "mutations g [] = Inr g"
| "mutations g (m # ms) = (case mutate g m of Inl e \<Rightarrow> Inl e | Inr g' \<Rightarrow> mutations g' ms)"

text \<open>
  The rank invariant, and the well-formedness of a graph: edges join registered
  operators, whose names are below the next name to be given out.
\<close>

definition rank_invariant :: "graph \<Rightarrow> bool" where
  "rank_invariant g = (\<forall>a \<in> set (operators g). \<forall>b \<in> set (targets g a). rank g a < rank g b)"

definition wellformed :: "graph \<Rightarrow> bool" where
  "wellformed g =
     ((\<forall>a. a \<notin> set (operators g) \<longrightarrow> targets g a = [])
      \<and> (\<forall>a. set (targets g a) \<subseteq> set (operators g))
      \<and> (\<forall>a \<in> set (operators g). a < next_id g))"


definition graph_ok :: "graph \<Rightarrow> bool" where
  "graph_ok g = (wellformed g \<and> rank_invariant g)"


text \<open>
  A run for evaluation: three operators, the third depending on the first, and then an
  edge from the third to the second, whose rank is not above the rank of the third.
\<close>

definition example_mutations :: "mutation list" where
  "example_mutations = [AddOperator [], AddOperator [], AddOperator [0], Connect 2 1]"


section \<open>Properties\<close>

subsection \<open>The scale accessor\<close>

text \<open>
  C8. For every name, \<open>scale(name)\<close> raises an error if and only if the name is not a key
  of the runtime's scales map; when the name is present the call returns the current value
  of that scale operator; in both cases the view, with its runtime, its scales map and every
  operator's value, is the one the call started from.
\<close>

theorem scale_raises_iff_unknown:
  "((\<exists>e. fst (scale this name) = Inl e) \<longleftrightarrow> name \<notin> dom (scales (runtime this)))
   \<and> (\<forall>s. scales (runtime this) name = Some s \<longrightarrow> fst (scale this name) = Inr (val s))
   \<and> snd (scale this name) = this"
  by (auto simp: scale_def hasOwnProperty_def Let_def split: option.splits)

theorem scale_raises_iff_unknown_witness:
  "scales (runtime \<lparr>runtime = \<lparr>scales = [''x'' \<mapsto> \<lparr>val = (7::nat)\<rparr>]\<rparr>\<rparr>) ''x''
     = Some \<lparr>val = 7\<rparr>
   \<and> fst (scale \<lparr>runtime = \<lparr>scales = [''x'' \<mapsto> \<lparr>val = (7::nat)\<rparr>]\<rparr>\<rparr> ''x'') = Inr 7
   \<and> (\<exists>e. fst (scale \<lparr>runtime = \<lparr>scales = [''x'' \<mapsto> \<lparr>val = (7::nat)\<rparr>]\<rparr>\<rparr> ''y'') = Inl e)"
  using scale_raises_iff_unknown
          [of "\<lparr>runtime = \<lparr>scales = [''x'' \<mapsto> \<lparr>val = (7::nat)\<rparr>]\<rparr>\<rparr>" "''x''"]
        scale_raises_iff_unknown
          [of "\<lparr>runtime = \<lparr>scales = [''x'' \<mapsto> \<lparr>val = (7::nat)\<rparr>]\<rparr>\<rparr>" "''y''"]
  by (simp add: dom_def)


subsection \<open>selectionTest without a unit index\<close>

text \<open>
  Without a unit index, or with an \<open>op\<close> other than \<open>'intersect'\<close>, the loop takes its
  second branch at every entry: it runs to its end exactly when \<open>testPoint\<close> returns
  \<open>intersect\<close> on every entry, and it returns early with the first other boolean.
\<close>

lemma selectionTest_loop_end_iff:
  "(if intersect then unitIdx else None) = None \<Longrightarrow>
   snd (selectionTest_loop u d unitIdx intersect miss es) = None
     \<longleftrightarrow> (\<forall>e\<in>set es. snd (testPoint u d e) = Inr intersect)"
  by (induction es) (auto split: prod.splits sum.splits)

lemma selectionTest_loop_return:
  "(if intersect then unitIdx else None) = None \<Longrightarrow>
   snd (selectionTest_loop u d unitIdx intersect miss es) = Some (Inr r) \<Longrightarrow>
   r = Boolean (\<not> intersect) \<and> (\<exists>e\<in>set es. snd (testPoint u d e) = Inr (\<not> intersect))"
  by (induction es) (auto split: prod.splits sum.splits if_splits)

lemma selectionTest_loop_hit:
  "(if intersect then unitIdx else None) = None \<Longrightarrow>
   \<forall>e\<in>set es. \<exists>b. snd (testPoint u d e) = Inr b \<Longrightarrow>
   \<exists>e\<in>set es. snd (testPoint u d e) = Inr (\<not> intersect) \<Longrightarrow>
   snd (selectionTest_loop u d unitIdx intersect miss es) = Some (Inr (Boolean (\<not> intersect)))"
proof (induction es)
  case Nil
  then show ?case by simp
next
  case (Cons a es)
  obtain b where b: "snd (testPoint u d a) = Inr b"
    using Cons.prems(2) by auto
  show ?case
  proof (cases "b = intersect")
    case True
    with b Cons.prems have "\<exists>e\<in>set es. snd (testPoint u d e) = Inr (\<not> intersect)"
      by auto
    with Cons have
      "snd (selectionTest_loop u d unitIdx intersect miss es) = Some (Inr (Boolean (\<not> intersect)))"
      by simp
    with b True Cons.prems(1) show ?thesis
      by (auto split: prod.splits sum.splits if_splits)
  next
    case False
    with b Cons.prems(1) show ?thesis
      by (auto split: prod.splits sum.splits if_splits)
  qed
qed

text \<open>A store without entries: the result is the number 0, whatever \<open>op\<close> is.\<close>

lemma selectionTest_no_entries:
  "(case ctx name of Some d \<Rightarrow> values_value d | None \<Rightarrow> []) = [] \<Longrightarrow>
   snd (selectionTest u ctx name datum op) = Inr (Number 0)"
  by (simp add: selectionTest_def Let_def)

text \<open>
  With \<open>op = 'intersect'\<close> and no unit index, the call returns a truthy value exactly when
  there are entries and \<open>testPoint\<close> returns \<open>true\<close> on each of them.
\<close>

lemma selectionTest_intersect_iff:
  assumes "ctx name = Some dset" and "index_unit dset = None"
  shows "(\<exists>r. snd (selectionTest u ctx name datum Intersect) = Inr r \<and> truthy r)
         \<longleftrightarrow> values_value dset \<noteq> []
              \<and> (\<forall>e\<in>set (values_value dset). snd (testPoint u datum e) = Inr True)"
proof -
  let ?l = "selectionTest_loop u datum None True [] (values_value dset)"
  have none: "(if True then (None :: unit_index option) else None) = None"
    by simp
  show ?thesis
  proof (cases "snd ?l")
    case None
    with selectionTest_loop_end_iff [OF none, of u datum "[]" "values_value dset"]
    have "\<forall>e\<in>set (values_value dset). snd (testPoint u datum e) = Inr True"
      by simp
    with None assms show ?thesis
      by (cases ?l) (auto simp: selectionTest_def Let_def truthy_def)
  next
    case (Some r)
    with selectionTest_loop_end_iff [OF none, of u datum "[]" "values_value dset"]
    have nall: "\<not> (\<forall>e\<in>set (values_value dset). snd (testPoint u datum e) = Inr True)"
      by simp
    have "\<not> (\<exists>r'. r = Inr r' \<and> truthy r')"
      using selectionTest_loop_return [OF none, of u datum "[]" "values_value dset"] Some
      by (auto simp: truthy_def)
    with Some nall assms show ?thesis
      by (cases ?l) (auto simp: selectionTest_def Let_def)
  qed
qed

text \<open>
  With any other \<open>op\<close>, a truthy result means that \<open>testPoint\<close> returned \<open>true\<close> on some
  entry; the converse holds when \<open>testPoint\<close> raises on no entry.
\<close>

lemma selectionTest_union_only_if:
  assumes "ctx name = Some dset" and "op \<noteq> Intersect"
    and "snd (selectionTest u ctx name datum op) = Inr r" and "truthy r"
  shows "\<exists>e\<in>set (values_value dset). snd (testPoint u datum e) = Inr True"
proof -
  let ?l = "selectionTest_loop u datum (index_unit dset) False [] (values_value dset)"
  have none: "(if False then index_unit dset else None) = None"
    by simp
  from assms have "snd ?l = Some (Inr r)"
    by (cases ?l; cases "snd ?l")
       (auto simp: selectionTest_def Let_def truthy_def split: if_splits)
  from selectionTest_loop_return [OF none this] show ?thesis
    by simp
qed

lemma selectionTest_union_if:
  assumes "ctx name = Some dset" and "op \<noteq> Intersect"
    and "\<forall>e\<in>set (values_value dset). \<exists>b. snd (testPoint u datum e) = Inr b"
    and "\<exists>e\<in>set (values_value dset). snd (testPoint u datum e) = Inr True"
  shows "snd (selectionTest u ctx name datum op) = Inr (Boolean True)"
proof -
  let ?l = "selectionTest_loop u datum (index_unit dset) False [] (values_value dset)"
  have none: "(if False then index_unit dset else None) = None"
    by simp
  from selectionTest_loop_hit [OF none assms(3)] assms(4)
  have "snd ?l = Some (Inr (Boolean True))"
    by simp
  with assms(1,2) show ?thesis
    by (cases ?l) (auto simp: selectionTest_def Let_def)
qed

text \<open>
  C10. For every datum and every selection store without a unit index, \<open>selectionTest\<close>
  with an \<open>op\<close> other than \<open>'intersect'\<close> reports the datum selected if and only if at
  least one entry satisfies \<open>testPoint\<close>. The code does not do this at a store whose first
  entry has the value \<open>null\<close> and whose second entry matches the datum: \<open>testPoint\<close>
  returns \<open>true\<close> on the second entry, and \<open>selectionTest\<close> raises the \<open>TypeError\<close> of
  \<open>values[i][0]\<close> on the first entry instead of returning a result.
\<close>

theorem selectionTest_null_value_raises:
  "snd (testPoint nat_util ((\<lambda>_. Undefined)(''a'' := Prim 1))
          \<lparr>entry_unit = ''u'', entry_fields = [\<lparr>field = ''a'', type = ''E''\<rparr>],
           entry_values = [Prim 1]\<rparr>) = Inr True
   \<and> snd (selectionTest nat_util
          [''store'' \<mapsto>
             \<lparr>values_value =
                [\<lparr>entry_unit = ''u'', entry_fields = [\<lparr>field = ''a'', type = ''E''\<rparr>],
                  entry_values = [Null]\<rparr>,
                 \<lparr>entry_unit = ''u'', entry_fields = [\<lparr>field = ''a'', type = ''E''\<rparr>],
                  entry_values = [Prim 1]\<rparr>],
              index_unit = None\<rparr>]
          ''store'' ((\<lambda>_. Undefined)(''a'' := Prim 1)) ''union'')
       = Inl (TypeError ''Cannot read properties of null (reading 0)'')"
  by (simp add: selectionTest_def testPoint_def nat_util_def Let_def isDate_def isArray_def
        isDate_at0_def at_index_def type_consts Intersect_def)


subsection \<open>A unit named like a property of \<open>Object.prototype\<close>\<close>

text \<open>
  With a unit index and \<open>'intersect'\<close> the misses are counted in the plain object \<open>miss\<close>.
  For the unit name \<open>'constructor'\<close> the first read of \<open>miss[unit]\<close> finds the inherited
  function, \<open>++count\<close> makes it \<open>NaN\<close>, which is equal to no count of the index: a datum
  that misses the one entry of such a unit is not reported as a miss, the loop runs to
  its end and the result is \<open>true\<close>; for the unit name \<open>'u'\<close> the result is \<open>false\<close>.
\<close>

lemma selectionTest_inherited_unit_name:
  "snd (selectionTest nat_util
          [''store'' \<mapsto>
             \<lparr>values_value =
                [\<lparr>entry_unit = ''constructor'', entry_fields = [\<lparr>field = ''a'', type = ''E''\<rparr>],
                  entry_values = [Prim 2]\<rparr>],
              index_unit = Some \<lparr>size_of = 2, get_count = [''constructor'' \<mapsto> 1]\<rparr>\<rparr>]
          ''store'' ((\<lambda>_. Undefined)(''a'' := Prim 1)) ''intersect'')
     = Inr (Boolean True)
   \<and> snd (selectionTest nat_util
          [''store'' \<mapsto>
             \<lparr>values_value =
                [\<lparr>entry_unit = ''u'', entry_fields = [\<lparr>field = ''a'', type = ''E''\<rparr>],
                  entry_values = [Prim 2]\<rparr>],
              index_unit = Some \<lparr>size_of = 2, get_count = [''u'' \<mapsto> 1]\<rparr>\<rparr>]
          ''store'' ((\<lambda>_. Undefined)(''a'' := Prim 1)) ''intersect'')
     = Inr (Boolean False)"
  by (simp add: selectionTest_def testPoint_def nat_util_def Let_def isDate_def isArray_def
        isDate_at0_def at_index_def type_consts Intersect_def read_count_def increment_def
        get_property_def Object_prototype_def assign_primitive_def)


subsection \<open>The grouping built by \<open>nest()\<close>\<close>

text \<open>
  C9. For every list of key functions and every input array, the grouping built by
  \<open>nest()\<close> is a partition of the input into leaf groups. The code does not build a
  grouping at all where a key value names a property of \<open>Object.prototype\<close>: with one
  key function and the one-element array whose key value is \<open>'constructor'\<close>, the read
  \<open>valuesByKey['constructor']\<close> finds the inherited constructor function, and
  \<open>values.push(value)\<close> throws.
\<close>

theorem nest_entries_prototype_key_raises:
  "nest_entries [\<lambda>d. d] [''constructor'']
     = Inl (TypeError ''values.push is not a function'')"
  by (simp add: nest_entries_def get_property_def Object_prototype_def)

text \<open>
  Away from these key values \<open>nest()\<close> returns, and what it returns is the partition of
  the claim: the leaf groups have distinct key paths, the group at a path holds the
  elements with these key values in their input order, every element has its group, and
  the groups together hold the elements of the input, each as often as the input.
\<close>

lemma map_of_set_property: "map_of (set_property obj k v) = (map_of obj)(k \<mapsto> v)"
  by (induction obj k v rule: set_property.induct) auto

lemma keys_set_property: "fst ` set (set_property obj k v) = insert k (fst ` set obj)"
  by (induction obj k v rule: set_property.induct) auto

lemma distinct_set_property:
  "distinct (map fst obj) \<Longrightarrow> distinct (map fst (set_property obj k v))"
  by (induction obj k v rule: set_property.induct) (auto simp: keys_set_property)

lemma group_by_key_result:
  assumes "group_by_key key array acc = Inr vbk" and "distinct (map fst acc)"
  shows "distinct (map fst vbk)
         \<and> fst ` set vbk = fst ` set acc \<union> key ` set array
         \<and> (\<forall>k. group_of vbk k = group_of acc k @ filter (\<lambda>x. key x = k) array)"
  using assms
proof (induction array arbitrary: acc)
  case Nil
  then show ?case by simp
next
  case (Cons v array)
  let ?k = "key v"
  show ?case
  proof (cases "get_property acc ?k")
    case (Own vs)
    then have m: "map_of acc ?k = Some vs"
      by (auto simp: get_property_def split: option.splits if_splits)
    let ?acc = "set_property acc ?k (vs @ [v])"
    from Cons.prems(1) Own have r: "group_by_key key array ?acc = Inr vbk"
      by (simp add: Let_def)
    from m have "?k \<in> fst ` set acc"
      by (metis map_of_eq_None_iff option.distinct(1))
    moreover have "group_of ?acc k = group_of acc k @ filter (\<lambda>x. key x = k) [v]" for k
      using m by (auto simp: group_of_def map_of_set_property)
    ultimately show ?thesis
      using Cons.IH [OF r distinct_set_property [OF Cons.prems(2)]]
      by (auto simp: keys_set_property)
  next
    case Inherited
    with Cons.prems(1) show ?thesis by (simp add: Let_def)
  next
    case Absent
    then have m: "map_of acc ?k = None"
      by (auto simp: get_property_def split: option.splits if_splits)
    let ?acc = "set_property acc ?k [v]"
    from Cons.prems(1) Absent have r: "group_by_key key array ?acc = Inr vbk"
      by (simp add: Let_def)
    have "group_of ?acc k = group_of acc k @ filter (\<lambda>x. key x = k) [v]" for k
      using m by (auto simp: group_of_def map_of_set_property)
    then show ?thesis
      using Cons.IH [OF r distinct_set_property [OF Cons.prems(2)]]
      by (auto simp: keys_set_property)
  qed
qed

lemma for_in_mset: "mset (for_in obj) = mset obj"
  by (simp add: for_in_def split_def)

lemma leaf_groups_leaves: "leaf_groups g = map snd (leaves g)"
  by (induction g rule: leaves.induct) (auto simp: map_concat split_def intro!: arg_cong [where f = concat])

lemma for_each_result_Inr:
  "for_each_result f kvs = Inr r \<Longrightarrow>
     map fst r = map fst kvs \<and> (\<forall>(k, w) \<in> set r. \<exists>v. (k, v) \<in> set kvs \<and> f v = Inr w)"
  by (induction kvs arbitrary: r) (fastforce split: sum.splits)+

lemma group_by_key_Inr:
  assumes "group_by_key key array [] = Inr vbk"
  shows "distinct (map fst vbk)" and "fst ` set vbk = key ` set array"
    and "\<And>k vs. (k, vs) \<in> set vbk \<Longrightarrow> vs = filter (\<lambda>x. key x = k) array"
proof -
  from group_by_key_result [OF assms]
  have d: "distinct (map fst vbk)" and s: "fst ` set vbk = key ` set array"
    and g: "\<And>k. group_of vbk k = filter (\<lambda>x. key x = k) array"
    by (simp_all add: group_of_def)
  show "distinct (map fst vbk)" by (rule d)
  show "fst ` set vbk = key ` set array" by (rule s)
  fix k vs
  assume "(k, vs) \<in> set vbk"
  with d have "map_of vbk k = Some vs" by simp
  then have "group_of vbk k = vs" by (simp add: group_of_def)
  with g show "vs = filter (\<lambda>x. key x = k) array" by simp
qed

lemma apply_keys_Cons_Inr:
  assumes "apply_keys (key # keys) array = Inr m"
  obtains result where "m = Object result" and "distinct (map fst result)"
    and "fst ` set result = key ` set array"
    and "\<And>k v. (k, v) \<in> set result \<Longrightarrow> apply_keys keys (filter (\<lambda>x. key x = k) array) = Inr v"
proof -
  from assms obtain vbk result where g: "group_by_key key array [] = Inr vbk"
    and f: "for_each_result (apply_keys keys) (for_in vbk) = Inr result"
    and m: "m = Object result"
    by (auto split: sum.splits)
  note v = group_by_key_Inr [OF g]
  from for_each_result_Inr [OF f]
  have r1: "map fst result = map fst (for_in vbk)"
    and r2: "\<And>k w. (k, w) \<in> set result \<Longrightarrow> \<exists>v. (k, v) \<in> set (for_in vbk) \<and> apply_keys keys v = Inr w"
    by auto
  have e: "mset (map fst (for_in vbk)) = mset (map fst vbk)"
    by (simp add: for_in_mset)
  have sv: "set (for_in vbk) = set vbk"
    by (rule mset_eq_setD) (rule for_in_mset)
  from e v(1) have d: "distinct (map fst result)"
    unfolding r1 by (metis mset_eq_imp_distinct_iff)
  have "set (map fst result) = set (map fst vbk)"
    unfolding r1 by (rule mset_eq_setD) (rule e)
  with v(2) have s: "fst ` set result = key ` set array" by simp
  have a: "apply_keys keys (filter (\<lambda>x. key x = k) array) = Inr w" if "(k, w) \<in> set result" for k w
  proof -
    from r2 [OF that] obtain vs where "(k, vs) \<in> set (for_in vbk)" and w: "apply_keys keys vs = Inr w"
      by blast
    with sv have "(k, vs) \<in> set vbk" by simp
    from v(3) [OF this] w show ?thesis by simp
  qed
  from m d s a show thesis by (rule that)
qed

lemma leaves_Object_keys:
  "map fst (leaves (Object obj)) = concat (map (\<lambda>(k, v). map ((#) k) (map fst (leaves v))) obj)"
  by (induction obj) (auto simp: split_def)

lemma leaves_Object_groups:
  "concat (map snd (leaves (Object obj))) = concat (map (\<lambda>(k, v). concat (map snd (leaves v))) obj)"
  by (induction obj) (auto simp: split_def o_def)

lemma distinct_concat_keys:
  "distinct (map fst kvs) \<Longrightarrow> \<forall>(k, v) \<in> set kvs. distinct (F v) \<Longrightarrow>
     distinct (concat (map (\<lambda>(k, v). map ((#) k) (F v)) kvs))"
  by (induction kvs) (auto simp: distinct_map image_iff)

lemma sum_list_singleton:
  "distinct ks \<Longrightarrow>
     (\<Sum>k\<leftarrow>ks. if a = k then {#x#} else {#}) = (if a \<in> set ks then {#x#} else {#})"
  by (induction ks) auto

lemma sum_list_groups:
  "distinct ks \<Longrightarrow> key ` set array \<subseteq> set ks \<Longrightarrow>
     (\<Sum>k\<leftarrow>ks. mset (filter (\<lambda>x. key x = k) array)) = mset array"
proof (induction array)
  case Nil
  then show ?case by simp
next
  case (Cons x array)
  have "(\<Sum>k\<leftarrow>ks. mset (filter (\<lambda>x. key x = k) (x # array)))
      = (\<Sum>k\<leftarrow>ks. (if key x = k then {#x#} else {#}) + mset (filter (\<lambda>x. key x = k) array))"
    by (rule arg_cong [where f = sum_list]) simp
  also have "\<dots> = (\<Sum>k\<leftarrow>ks. if key x = k then {#x#} else {#})
      + (\<Sum>k\<leftarrow>ks. mset (filter (\<lambda>x. key x = k) array))"
    by (rule sum_list_addf)
  also have "\<dots> = {#x#} + mset array"
    using Cons by (simp add: sum_list_singleton)
  finally show ?case by simp
qed

lemma apply_keys_leaves:
  "apply_keys keys array = Inr m \<Longrightarrow>
     distinct (map fst (leaves m))
     \<and> (\<forall>(p, g) \<in> set (leaves m). g = filter (\<lambda>x. key_values keys x = p) array)
     \<and> fst ` set (leaves m) = (if keys = [] then {[]} else key_values keys ` set array)
     \<and> mset (concat (map snd (leaves m))) = mset array"
proof (induction keys arbitrary: array m)
  case Nil
  then show ?case by (auto simp: key_values_def)
next
  case (Cons key keys)
  let ?sub = "\<lambda>k. filter (\<lambda>x. key x = k) array"
  from Cons.prems obtain result where m: "m = Object result"
    and d: "distinct (map fst result)"
    and s: "fst ` set result = key ` set array"
    and a: "\<And>k v. (k, v) \<in> set result \<Longrightarrow> apply_keys keys (?sub k) = Inr v"
    by (rule apply_keys_Cons_Inr) blast
  have ih1: "distinct (map fst (leaves v))"
    and ih2: "\<And>p g. (p, g) \<in> set (leaves v) \<Longrightarrow> g = filter (\<lambda>x. key_values keys x = p) (?sub k)"
    and ih3: "fst ` set (leaves v) = (if keys = [] then {[]} else key_values keys ` set (?sub k))"
    and ih4: "mset (concat (map snd (leaves v))) = mset (?sub k)"
    if "(k, v) \<in> set result" for k v
    using Cons.IH [OF a [OF that]] by blast+
  have el: "\<exists>k v p'. (k, v) \<in> set result \<and> (p', g) \<in> set (leaves v) \<and> p = k # p'"
    if "(p, g) \<in> set (leaves m)" for p g
    using that unfolding m by auto
  have le: "(k # p', g) \<in> set (leaves m)" if "(k, v) \<in> set result" and "(p', g) \<in> set (leaves v)" for k v p' g
    using that unfolding m by force
  have 1: "distinct (map fst (leaves m))"
    unfolding m leaves_Object_keys
    by (rule distinct_concat_keys [OF d]) (auto simp: ih1)
  have 2: "g = filter (\<lambda>x. key_values (key # keys) x = p) array" if "(p, g) \<in> set (leaves m)" for p g
  proof -
    from el [OF that] obtain k v p' where kv: "(k, v) \<in> set result"
      and p': "(p', g) \<in> set (leaves v)" and p: "p = k # p'"
      by blast
    from ih2 [OF kv p'] show ?thesis
      unfolding p by (auto simp: key_values_def intro: filter_cong)
  qed
  have 3: "fst ` set (leaves m) = key_values (key # keys) ` set array"
  proof (rule set_eqI, rule iffI)
    fix p
    assume "p \<in> fst ` set (leaves m)"
    then obtain g where "(p, g) \<in> set (leaves m)" by auto
    from el [OF this] obtain k v p' where kv: "(k, v) \<in> set result"
      and p': "(p', g) \<in> set (leaves v)" and p: "p = k # p'"
      by blast
    from kv have "k \<in> fst ` set result" by force
    with s obtain y where y: "y \<in> set array" "key y = k" by auto
    from p' have "p' \<in> fst ` set (leaves v)" by force
    with ih3 [OF kv] have pm: "p' \<in> (if keys = [] then {[]} else key_values keys ` set (?sub k))"
      by simp
    show "p \<in> key_values (key # keys) ` set array"
    proof (cases "keys = []")
      case True
      with pm have "p' = []" by simp
      with y True have "p = key_values (key # keys) y"
        unfolding p by (simp add: key_values_def)
      with y(1) show ?thesis by blast
    next
      case False
      with pm obtain x where x: "x \<in> set array" and "key x = k" and "p' = key_values keys x"
        by auto
      then have "p = key_values (key # keys) x"
        unfolding p by (simp add: key_values_def)
      with x show ?thesis by blast
    qed
  next
    fix p
    assume "p \<in> key_values (key # keys) ` set array"
    then obtain x where x: "x \<in> set array" and p: "p = key x # key_values keys x"
      by (auto simp: key_values_def)
    from x s have "key x \<in> fst ` set result" by auto
    then obtain v where kv: "(key x, v) \<in> set result" by auto
    from x have "key_values keys x \<in> (if keys = [] then {[]} else key_values keys ` set (?sub (key x)))"
      by (auto simp: key_values_def)
    with ih3 [OF kv] have "key_values keys x \<in> fst ` set (leaves v)" by simp
    then obtain g where "(key_values keys x, g) \<in> set (leaves v)" by auto
    from le [OF kv this] show "p \<in> fst ` set (leaves m)"
      unfolding p by force
  qed
  have "mset (concat (map snd (leaves m)))
      = (\<Sum>(k, v)\<leftarrow>result. mset (concat (map snd (leaves v))))"
    unfolding m leaves_Object_groups by (simp add: mset_concat o_def split_def)
  also have "\<dots> = (\<Sum>(k, v)\<leftarrow>result. mset (?sub k))"
    by (rule arg_cong [where f = sum_list], rule map_cong) (auto simp: ih4)
  also have "\<dots> = (\<Sum>k\<leftarrow>map fst result. mset (?sub k))"
    by (simp add: o_def split_def)
  also have "\<dots> = mset array"
    by (rule sum_list_groups [OF d]) (simp add: s)
  finally have 4: "mset (concat (map snd (leaves m))) = mset array" .
  from 1 2 3 4 show ?case by auto
qed

lemma sum_list_mset_cong:
  "mset xs = mset ys \<Longrightarrow> sum_list (map f xs) = (sum_list (map f ys) :: 'b multiset)"
  by (metis mset_map sum_mset_sum_list)

lemma leaves_entries: "mset (leaves (entries keys m)) = mset (leaves m)"
proof (induction keys arbitrary: m)
  case Nil
  show ?case by simp
next
  case (Cons key keys)
  show ?case
  proof (cases m)
    case (Object obj)
    let ?f = "\<lambda>(k, v). mset (map (\<lambda>(p, g). (k # p, g)) (leaves v))"
    have "mset (leaves (entries (key # keys) m)) = sum_list (map ?f (for_in obj))"
      unfolding Object by (simp add: mset_concat o_def split_def Cons.IH)
    also have "\<dots> = sum_list (map ?f obj)"
      by (rule sum_list_mset_cong) (rule for_in_mset)
    also have "\<dots> = mset (leaves m)"
      unfolding Object by (simp add: mset_concat o_def split_def)
    finally show ?thesis .
  qed simp_all
qed

lemma group_by_key_returns:
  "\<forall>x \<in> set array. key x \<notin> set Object_prototype \<Longrightarrow> \<exists>vbk. group_by_key key array acc = Inr vbk"
  by (induction array arbitrary: acc)
    (auto simp: Let_def get_property_def split: property.splits option.splits if_splits)

lemma for_each_result_returns:
  "\<forall>(k, v) \<in> set kvs. \<exists>w. f v = Inr w \<Longrightarrow> \<exists>r. for_each_result f kvs = Inr r"
  by (induction kvs) (auto split: sum.splits)

lemma apply_keys_returns:
  "\<forall>key \<in> set keys. \<forall>x \<in> set array. key x \<notin> set Object_prototype \<Longrightarrow>
     \<exists>m. apply_keys keys array = Inr m"
proof (induction keys arbitrary: array)
  case Nil
  show ?case by simp
next
  case (Cons key keys)
  from Cons.prems obtain vbk where g: "group_by_key key array [] = Inr vbk"
    using group_by_key_returns [of array key "[]"] by auto
  have "\<exists>w. apply_keys keys vs = Inr w" if "(k, vs) \<in> set (for_in vbk)" for k vs
  proof -
    have "set (for_in vbk) = set vbk"
      by (rule mset_eq_setD) (rule for_in_mset)
    with that have "(k, vs) \<in> set vbk" by simp
    from group_by_key_Inr(3) [OF g this] have "set vs \<subseteq> set array" by auto
    with Cons.prems show ?thesis
      by (intro Cons.IH) auto
  qed
  then have "\<exists>r. for_each_result (apply_keys keys) (for_in vbk) = Inr r"
    by (intro for_each_result_returns) auto
  with g show ?case by auto
qed

lemma nest_entries_returns:
  "\<forall>key \<in> set keys. \<forall>x \<in> set array. key x \<notin> set Object_prototype \<Longrightarrow>
     \<exists>grouping. nest_entries keys array = Inr grouping"
  using apply_keys_returns [of keys array] by (auto simp: nest_entries_def)

lemma nest_entries_partition:
  assumes "nest_entries keys array = Inr grouping"
  shows "leaf_groups grouping = map snd (leaves grouping)
     \<and> distinct (map fst (leaves grouping))
     \<and> (\<forall>(p, g) \<in> set (leaves grouping). g = filter (\<lambda>x. key_values keys x = p) array)
     \<and> (keys \<noteq> [] \<longrightarrow> fst ` set (leaves grouping) = key_values keys ` set array)
     \<and> mset (concat (leaf_groups grouping)) = mset array"
proof -
  from assms obtain m where m: "apply_keys keys array = Inr m" and g: "grouping = entries keys m"
    by (auto simp: nest_entries_def split: sum.splits)
  have e: "mset (leaves grouping) = mset (leaves m)"
    unfolding g by (rule leaves_entries)
  then have s: "set (leaves grouping) = set (leaves m)"
    by (rule mset_eq_setD)
  from e have "mset (map fst (leaves grouping)) = mset (map fst (leaves m))"
    by simp
  then have d: "distinct (map fst (leaves grouping)) = distinct (map fst (leaves m))"
    by (rule mset_eq_imp_distinct_iff)
  have "mset (concat (map snd (leaves grouping))) = sum_list (map (\<lambda>l. mset (snd l)) (leaves grouping))"
    by (simp add: mset_concat o_def)
  also have "\<dots> = sum_list (map (\<lambda>l. mset (snd l)) (leaves m))"
    by (rule sum_list_mset_cong) (rule e)
  also have "\<dots> = mset (concat (map snd (leaves m)))"
    by (simp add: mset_concat o_def)
  finally have c: "mset (concat (leaf_groups grouping)) = mset (concat (map snd (leaves m)))"
    by (simp add: leaf_groups_leaves)
  from apply_keys_leaves [OF m] show ?thesis
    unfolding s d c by (simp add: leaf_groups_leaves)
qed




subsection \<open>The order of the callbacks of \<open>visit\<close>\<close>


lemma rank_Pair:
  "map (\<lambda>c. visit_rank (fst c)) (map (Pair f) xs) = replicate (length xs) (visit_rank f)"
  "map ((\<lambda>c. visit_rank (fst c)) \<circ> Pair f) xs = replicate (length xs) (visit_rank f)"
  by (induction xs) auto

lemma visit_calls_ranks:
  "\<exists>r a m s. map (\<lambda>c. visit_rank (fst c)) (visit_calls h pulse flags)
      = replicate r 0 @ replicate a 1 @ replicate m 2 @ replicate s 3"
proof -
  let ?p = "pulses h pulse"
  let ?R = "if REM \<in> set flags then map (Pair REM) (arrays h (p_rem ?p)) else []"
  let ?A = "if ADD \<in> set flags then map (Pair ADD) (arrays h (p_add ?p)) else []"
  let ?M = "if MOD \<in> set flags then map (Pair MOD) (arrays h (p_mod ?p)) else []"
  let ?S = "if SOURCE \<in> set flags
         then (case p_source ?p of None \<Rightarrow> [] | Some s \<Rightarrow> map (Pair SOURCE) (arrays h s))
         else []"
  have c: "visit_calls h pulse flags = ?R @ ?A @ ?M @ ?S"
    by (simp only: visit_calls_def Let_def)
  have r: "map (\<lambda>c. visit_rank (fst c)) ?R = replicate (length ?R) 0"
    by (simp add: rank_Pair)
  have a: "map (\<lambda>c. visit_rank (fst c)) ?A = replicate (length ?A) 1"
    by (simp add: rank_Pair)
  have m: "map (\<lambda>c. visit_rank (fst c)) ?M = replicate (length ?M) 2"
    by (simp add: rank_Pair)
  have s: "map (\<lambda>c. visit_rank (fst c)) ?S = replicate (length ?S) 3"
    by (cases "p_source ?p") (simp_all add: rank_Pair)
  show ?thesis
    unfolding c map_append r a m s by blast
qed

lemma visit_calls_sorted: "sorted (map (\<lambda>c. visit_rank (fst c)) (visit_calls h pulse flags))"
proof -
  obtain r a m s where "map (\<lambda>c. visit_rank (fst c)) (visit_calls h pulse flags)
      = replicate r 0 @ replicate a 1 @ replicate m 2 @ replicate s 3"
    using visit_calls_ranks by blast
  then show ?thesis
    by (auto simp: sorted_append)
qed


lemma filter_Pair:
  "filter (\<lambda>c. fst c = g) (map (Pair f) xs) = (if f = g then map (Pair f) xs else [])"
  by (induction xs) auto

lemma filter_flag_part:
  "map snd (filter (\<lambda>c. fst c = f) (if b then map (Pair g) xs else []))
     = (if b \<and> f = g then xs else [])"
  by (induction xs) auto

lemma visit_calls_of_flag:
  "map snd (filter (\<lambda>c. fst c = f) (visit_calls h pulse flags))
     = (if f \<in> set flags
        then (case f of
                REM \<Rightarrow> arrays h (p_rem (pulses h pulse))
              | ADD \<Rightarrow> arrays h (p_add (pulses h pulse))
              | MOD \<Rightarrow> arrays h (p_mod (pulses h pulse))
              | SOURCE \<Rightarrow> (case p_source (pulses h pulse) of None \<Rightarrow> [] | Some s \<Rightarrow> arrays h s)
              | _ \<Rightarrow> [])
        else [])"
proof -
  let ?p = "pulses h pulse"
  let ?S = "if SOURCE \<in> set flags
         then (case p_source ?p of None \<Rightarrow> [] | Some s \<Rightarrow> map (Pair SOURCE) (arrays h s))
         else []"
  have c: "visit_calls h pulse flags
             = (if REM \<in> set flags then map (Pair REM) (arrays h (p_rem ?p)) else [])
               @ (if ADD \<in> set flags then map (Pair ADD) (arrays h (p_add ?p)) else [])
               @ (if MOD \<in> set flags then map (Pair MOD) (arrays h (p_mod ?p)) else [])
               @ ?S"
    by (simp only: visit_calls_def Let_def)
  have s: "?S = (if SOURCE \<in> set flags
                 then map (Pair SOURCE) (case p_source ?p of None \<Rightarrow> [] | Some s \<Rightarrow> arrays h s)
                 else [])"
    by (cases "p_source ?p") simp_all
  show ?thesis
    unfolding c s filter_append map_append filter_flag_part
    by (cases f) auto
qed

text \<open>
  C6. For every pulse and every combination of flags, one call of \<open>visit\<close> invokes the
  callback over the selected sequences in the order removals, additions, modifications,
  source: a call for an element of an earlier sequence of this order comes before every
  call for an element of a later one, and the calls for a selected sequence are its
  elements in their order.
\<close>

theorem visit_order:
  "(\<forall>i j. i < length (visit_calls h pulse flags) \<and> j < length (visit_calls h pulse flags)
         \<and> visit_rank (fst (visit_calls h pulse flags ! i))
             < visit_rank (fst (visit_calls h pulse flags ! j))
       \<longrightarrow> i < j)
   \<and> (\<forall>f. map snd (filter (\<lambda>c. fst c = f) (visit_calls h pulse flags))
        = (if f \<in> set flags
           then (case f of
                   REM \<Rightarrow> arrays h (p_rem (pulses h pulse))
                 | ADD \<Rightarrow> arrays h (p_add (pulses h pulse))
                 | MOD \<Rightarrow> arrays h (p_mod (pulses h pulse))
                 | SOURCE \<Rightarrow>
                     (case p_source (pulses h pulse) of None \<Rightarrow> [] | Some s \<Rightarrow> arrays h s)
                 | _ \<Rightarrow> [])
           else []))"
proof -
  let ?cs = "visit_calls h pulse flags"
  have order: "i < j"
    if "i < length ?cs" "j < length ?cs"
      "visit_rank (fst (?cs ! i)) < visit_rank (fst (?cs ! j))" for i j
  proof (rule ccontr)
    assume "\<not> i < j"
    then have "j \<le> i" by simp
    with visit_calls_sorted [of h pulse flags] that(1)
    have "map (\<lambda>c. visit_rank (fst c)) ?cs ! j \<le> map (\<lambda>c. visit_rank (fst c)) ?cs ! i"
      by (intro sorted_nth_mono) auto
    with that show False by simp
  qed
  with visit_calls_of_flag [of _ h pulse flags] show ?thesis
    by blast
qed

theorem visit_order_witness:
  "visit_calls example_store 0 ALL_FLAGS
     = [(REM, 11), (ADD, 10), (MOD, 12), (SOURCE, 10), (SOURCE, 12), (SOURCE, 13)]
   \<and> visit_rank (fst (visit_calls example_store 0 ALL_FLAGS ! 1))
       < visit_rank (fst (visit_calls example_store 0 ALL_FLAGS ! 2))
   \<and> (1::nat) < 2
   \<and> map snd (filter (\<lambda>c. fst c = REM) (visit_calls example_store 0 ALL_FLAGS)) = [11]"
  using visit_order [of example_store 0 ALL_FLAGS]
  by (simp add: visit_calls_def example_store_def ALL_FLAGS_def)




subsection \<open>Frames of the store operations and of the transforms\<close>

lemma frame_refl: "frame h h"
  by (simp add: frame_def)

lemma frame_new_array: "frame h0 h \<Longrightarrow> frame h0 (snd (new_array xs h))"
  by (simp add: frame_def new_array_def)

lemma new_array_fst: "fst (new_array xs h) = next_array h"
  by (simp add: new_array_def)

lemma frame_slice: "frame h0 h \<Longrightarrow> frame h0 (snd (slice a h))"
  by (simp add: slice_def frame_new_array)



lemma frame_new_object: "frame h0 h \<Longrightarrow> frame h0 (snd (new_object fs h))"
  by (simp add: frame_def new_object_def)

lemma frame_new_object_eq: "new_object fs h = (x, h1) \<Longrightarrow> frame h0 h \<Longrightarrow> frame h0 h1"
  using frame_new_object [of h0 h fs] by simp

lemma frame_array_root: "frame h0 h \<Longrightarrow> frame h0 (h\<lparr>array_root := r\<rparr>)"
  by (simp add: frame_def)

lemma frame_new_tree: "frame h0 h \<Longrightarrow> frame h0 (snd (new_tree root h))"
  by (simp add: frame_def new_tree_def)

lemma frame_new_tree_eq: "new_tree root h = (t, h1) \<Longrightarrow> frame h0 h \<Longrightarrow> frame h0 h1"
  using frame_new_tree [of h0 h root] by simp

lemma frame_lookup: "frame h0 h \<Longrightarrow> frame h0 (lookup t key filter' h)"
  by (simp add: frame_def lookup_def)

lemma frame_update_root: "frame h0 h \<Longrightarrow> frame h0 (update_root t root h)"
  by (simp add: frame_def update_root_def)

lemma frame_new_pulse: "frame h0 h \<Longrightarrow> frame h0 (snd (new_pulse p h))"
  by (simp add: frame_def new_pulse_def)

lemma frame_pulse_update:
  "frame h0 h \<Longrightarrow> next_pulse h0 \<le> out \<Longrightarrow> frame h0 (h\<lparr>pulses := (pulses h)(out := p)\<rparr>)"
  by (simp add: frame_def)


lemma frame_next_array: "frame h0 h \<Longrightarrow> next_array h0 \<le> next_array h"
  by (simp add: frame_def)

lemma frame_next_pulse: "frame h0 h \<Longrightarrow> next_pulse h0 \<le> next_pulse h"
  by (simp add: frame_def)



lemma same_pulses_refl: "same_pulses h h"
  by (simp add: same_pulses_def)

lemma same_pulses_trans: "same_pulses h0 h1 \<Longrightarrow> same_pulses h1 h2 \<Longrightarrow> same_pulses h0 h2"
  by (simp add: same_pulses_def)

lemma same_pulses_new_array: "new_array xs h = (a, h1) \<Longrightarrow> same_pulses h0 h \<Longrightarrow> same_pulses h0 h1"
  by (auto simp: same_pulses_def new_array_def)

lemma same_pulses_new_object: "new_object fs h = (x, h1) \<Longrightarrow> same_pulses h0 h \<Longrightarrow> same_pulses h0 h1"
  by (auto simp: same_pulses_def new_object_def)

lemma same_pulses_new_tree: "new_tree root h = (t, h1) \<Longrightarrow> same_pulses h0 h \<Longrightarrow> same_pulses h0 h1"
  by (auto simp: same_pulses_def new_tree_def)



lemma same_pulses_lookup: "same_pulses h0 h \<Longrightarrow> same_pulses h0 (lookup t key filter' h)"
  by (simp add: same_pulses_def lookup_def)






lemma same_pulses_derived:
  "derived_pulse h h1 pulse out \<Longrightarrow> same_pulses h1 h2 \<Longrightarrow> derived_pulse h h2 pulse out"
  by (simp add: derived_pulse_def same_pulses_def)

lemma clone_facts:
  assumes "clone pulse h = (out, h1)"
  shows "frame h h1" and "out = next_pulse h" and "next_pulse h1 = Suc (next_pulse h)"
    and "next_array h \<le> p_add (pulses h1 out)"
    and "next_array h \<le> p_rem (pulses h1 out)"
    and "next_array h \<le> p_mod (pulses h1 out)"
    and "\<And>s. p_source (pulses h1 out) = Some s \<Longrightarrow> next_array h \<le> s"
    and "p_source (pulses h1 out) = None \<longleftrightarrow> p_source (pulses h pulse) = None"
  using assms
  by (auto simp: clone_def slice_def new_array_def new_pulse_def frame_def Let_def
        split: prod.splits option.splits)

lemma clone_derived:
  assumes "clone pulse h = (out, h1)"
  shows "derived_pulse h h1 pulse out" and "trees h1 = trees h" and "TUPLE_ID h1 = TUPLE_ID h"
  using assms
  by (auto simp: clone_def slice_def new_array_def new_pulse_def derived_pulse_def Let_def
        split: prod.splits option.splits)

lemma clone_copies:
  assumes "clone pulse h = (out, h1)" and "valid_pulse h pulse"
  shows "arrays h1 (p_add (pulses h1 out)) = arrays h (p_add (pulses h pulse))"
    and "arrays h1 (p_rem (pulses h1 out)) = arrays h (p_rem (pulses h pulse))"
  using assms
  by (auto simp: clone_def slice_def new_array_def new_pulse_def valid_pulse_def Let_def
        split: prod.splits option.splits)

lemma carry_facts:
  assumes "carry flags f a h = (a', h1)"
  shows "frame h h1" and "next_object h1 = next_object h" and "pulses h1 = pulses h"
    and "next_pulse h1 = next_pulse h"
    and "f \<in> set flags \<Longrightarrow> a' = a \<and> h1 = h"
    and "f \<notin> set flags \<Longrightarrow> a' = next_array h \<and> arrays h1 a' = []"
  using assms
  by (auto simp: carry_def new_array_def frame_def split: if_splits)

lemma frame_trans: "frame h0 h1 \<Longrightarrow> frame h1 h2 \<Longrightarrow> frame h0 h2"
  by (auto simp: frame_def)

lemma fork_facts:
  assumes "fork flags pulse h = (out, h1)"
  shows "frame h h1" and "out = next_pulse h" and "next_pulse h1 = Suc (next_pulse h)"
    and "ADD \<notin> set flags \<Longrightarrow> next_array h \<le> p_add (pulses h1 out)"
    and "MOD \<notin> set flags \<Longrightarrow> next_array h \<le> p_mod (pulses h1 out)"
    and "ADD \<in> set flags \<Longrightarrow> p_add (pulses h1 out) = p_add (pulses h pulse)"
    and "REM \<in> set flags \<Longrightarrow> p_rem (pulses h1 out) = p_rem (pulses h pulse)"
    and "p_source (pulses h1 out) = (if NO_SOURCE \<in> set flags then None else p_source (pulses h pulse))"
  using assms
  by (auto simp: fork_def carry_def new_array_def new_pulse_def frame_def Let_def
        split: prod.splits if_splits)

lemma fork_derived:
  assumes "fork flags pulse h = (out, h1)" and "NO_FIELDS \<notin> set flags"
  shows "derived_pulse h h1 pulse out" and "trees h1 = trees h" and "TUPLE_ID h1 = TUPLE_ID h"
  using assms
  by (auto simp: fork_def carry_def new_array_def new_pulse_def derived_pulse_def Let_def
        split: prod.splits if_splits)










lemma frame_stratify_tree:
  "stratify_tree stratify params src h = (t, h1) \<Longrightarrow> frame h0 h \<Longrightarrow> frame h0 h1"
  by (auto simp: stratify_tree_def split: if_splits sum.splits prod.splits
        intro!: frame_lookup dest: frame_new_object_eq frame_new_tree_eq)

lemma same_pulses_stratify_tree:
  "stratify_tree stratify params src h = (t, h1) \<Longrightarrow> same_pulses h0 h \<Longrightarrow> same_pulses h0 h1"
  by (auto simp: stratify_tree_def split: if_splits sum.splits prod.splits
        intro!: same_pulses_lookup dest: same_pulses_new_object same_pulses_new_tree)

lemma derived_pulse_update:
  "derived_pulse h h1 pulse out \<Longrightarrow> p_stamp p = p_stamp (pulses h1 out)
     \<Longrightarrow> p_fields p = p_fields (pulses h1 out)
     \<Longrightarrow> derived_pulse h (h1\<lparr>pulses := (pulses h1)(out := p)\<rparr>) pulse out"
  by (simp add: derived_pulse_def)

lemma Stratify_frame:
  assumes "Stratify_transform stratify params pulse (this, h) = (r, this', h')"
  shows "frame h h'
         \<and> (\<forall>out. r = Inr out \<longrightarrow> out = next_pulse h \<and> derived_pulse h h' pulse out)"
proof (cases "p_source (pulses h pulse)")
  case None
  with assms show ?thesis
    by (auto simp: Stratify_transform_def frame_refl)
next
  case (Some src0)
  obtain out h1 where f: "fork ALL_FLAGS pulse h = (out, h1)"
    by (cases "fork ALL_FLAGS pulse h")
  note ff = fork_facts [OF f]
  have fd: "derived_pulse h h1 pulse out"
    by (rule fork_derived(1) [OF f]) (simp add: ALL_FLAGS_def)
  show ?thesis
  proof (cases "p_source (pulses h1 out)")
    case None
    with assms Some f ff(1) show ?thesis
      by (auto simp: Stratify_transform_def Let_def materialize_def)
  next
    case os: (Some src)
    obtain src' h3 where sl: "slice src h1 = (src', h3)"
      by (cases "slice src h1")
    let ?h4 = "h3\<lparr>pulses := (pulses h3)(out := (pulses h3 out)\<lparr>p_source := Some src'\<rparr>)\<rparr>"
    from sl frame_slice [OF ff(1), of src] have f3: "frame h h3"
      by simp
    with ff(2) have f4: "frame h ?h4"
      by (simp add: frame_pulse_update)
    from sl have "same_pulses h1 h3"
      by (auto simp: slice_def dest: same_pulses_new_array intro: same_pulses_refl)
    with fd have "derived_pulse h h3 pulse out"
      by (rule same_pulses_derived)
    then have d4: "derived_pulse h ?h4 pulse out"
      by (rule derived_pulse_update) simp_all
    obtain t h5 where st: "stratify_tree stratify params src' ?h4 = (t, h5)"
      by (cases "stratify_tree stratify params src' ?h4")
    from frame_stratify_tree [OF st f4] have f5: "frame h h5" .
    from same_pulses_stratify_tree [OF st same_pulses_refl] d4
    have d5: "derived_pulse h h5 pulse out"
      by (rule same_pulses_derived [rotated])
    from assms Some f os sl st have
      "(\<exists>e. r = Inl e \<and> h' = h5)
       \<or> (\<exists>t. r = Inr out \<and> h' = h5\<lparr>array_root := (array_root h5)(src' := t)\<rparr>)
       \<or> (\<exists>t. r = Inr out \<and> h' = ?h4\<lparr>array_root := (array_root ?h4)(src' := t)\<rparr>)"
      by (auto simp: Stratify_transform_def Let_def materialize_def
            split: if_splits sum.splits)
    moreover have "derived_pulse h (h5\<lparr>array_root := x\<rparr>) pulse out"
      and "derived_pulse h (?h4\<lparr>array_root := x\<rparr>) pulse out" for x
      using d4 d5 by (simp_all add: derived_pulse_def)
    ultimately show ?thesis
      using f4 f5 ff(2) by (auto simp: frame_array_root)
  qed
qed
















subsection \<open>No-op pulses\<close>

lemma changed_frame:
  "frame h h1 \<Longrightarrow> valid_pulse h pulse \<Longrightarrow> changed h1 pulse flags = changed h pulse flags"
  by (simp add: frame_def valid_pulse_def changed_def)

lemma modified_frame:
  "frame h h1 \<Longrightarrow> valid_pulse h pulse \<Longrightarrow> modified h1 pulse fs = modified h pulse fs"
  by (simp add: frame_def valid_pulse_def modified_def)

lemma noop_not_changed: "noop_pulse h pulse \<Longrightarrow> \<not> changed h pulse flags"
  by (simp add: noop_pulse_def changed_def)

lemma noop_not_modified: "noop_pulse h pulse \<Longrightarrow> \<not> modified h pulse fs"
  by (simp add: noop_pulse_def modified_def)

lemma Nest_noop:
  assumes v: "valid_pulse h pulse" and n: "noop_pulse h pulse"
    and t: "val this = Some tree" and m: "\<not> nest_modified params"
    and r: "Nest_transform params pulse (this, h) = (r, this', h')"
  shows "this' = this \<and> trees h' = trees h
         \<and> (\<forall>out. r = Inr out \<longrightarrow> arrays h' (p_add (pulses h' out)) = []
                   \<and> arrays h' (p_rem (pulses h' out)) = [])"
proof (cases "p_source (pulses h pulse)")
  case None
  with r show ?thesis
    by (auto simp: Nest_transform_def)
next
  case (Some src)
  obtain out h1 where c: "clone pulse h = (out, h1)"
    by (cases "clone pulse h")
  note cf = clone_facts [OF c] and cc = clone_copies [OF c v] and ct = clone_derived(2) [OF c]
  have nc: "\<not> changed h1 pulse ALL_FLAGS"
    using changed_frame [OF cf(1) v] noop_not_changed [OF n] by simp
  show ?thesis
  proof (cases "p_source (pulses h1 out)")
    case None
    with r Some c ct show ?thesis
      by (auto simp: Nest_transform_def Let_def)
  next
    case os: (Some out_source)
    from r Some c os t m nc have
      "r = Inr out" "this' = this"
      "h' = h1\<lparr>array_root := (array_root h1)(out_source := val this)\<rparr>"
      by (auto simp: Nest_transform_def Let_def)
    with cc n ct show ?thesis
      by (simp add: noop_pulse_def)
  qed
qed

lemma Stratify_noop:
  assumes v: "valid_pulse h pulse" and n: "noop_pulse h pulse"
    and t: "val this = Some tree" and m: "\<not> strat_modified params"
    and r: "Stratify_transform stratify params pulse (this, h) = (r, this', h')"
  shows "this' = this \<and> trees h' = trees h
         \<and> (\<forall>out. r = Inr out \<longrightarrow> arrays h' (p_add (pulses h' out)) = []
                   \<and> arrays h' (p_rem (pulses h' out)) = [])"
proof (cases "p_source (pulses h pulse)")
  case None
  with r show ?thesis
    by (auto simp: Stratify_transform_def)
next
  case (Some src0)
  obtain out h1 where f: "fork ALL_FLAGS pulse h = (out, h1)"
    by (cases "fork ALL_FLAGS pulse h")
  note ff = fork_facts [OF f]
  have ft: "trees h1 = trees h"
    by (rule fork_derived(2) [OF f]) (simp add: ALL_FLAGS_def)
  have a: "p_add (pulses h1 out) = p_add (pulses h pulse)"
    and b: "p_rem (pulses h1 out) = p_rem (pulses h pulse)"
    using ff(6,7) by (simp_all add: ALL_FLAGS_def)
  have nr: "\<not> changed h1 pulse ADD_REM" "\<not> modified h1 pulse fs" for fs
    using changed_frame [OF ff(1) v] modified_frame [OF ff(1) v]
      noop_not_changed [OF n] noop_not_modified [OF n] by simp_all
  from Stratify_frame [OF r] have fr: "frame h h'"
    by simp
  with v have u: "arrays h' (p_add (pulses h pulse)) = arrays h (p_add (pulses h pulse))"
    "arrays h' (p_rem (pulses h pulse)) = arrays h (p_rem (pulses h pulse))"
    by (simp_all add: frame_def valid_pulse_def)
  show ?thesis
  proof (cases "p_source (pulses h1 out)")
    case None
    with r Some f ft show ?thesis
      by (auto simp: Stratify_transform_def Let_def materialize_def)
  next
    case os: (Some src)
    obtain src' h3 where sl: "slice src h1 = (src', h3)"
      by (cases "slice src h1")
    then have p3: "pulses h3 = pulses h1" and t3: "trees h3 = trees h1"
      by (auto simp: slice_def new_array_def)
    from r Some f os sl t m nr have
      "r = Inr out" "this' = this"
      "pulses h' out = (pulses h3 out)\<lparr>p_source := Some src'\<rparr>"
      "trees h' = trees h3"
      by (auto simp: Stratify_transform_def Let_def materialize_def)
    with p3 t3 ft a b u n show ?thesis
      by (simp add: noop_pulse_def)
  qed
qed

text \<open>
  C4. For every no-op pulse (empty add, rem and mod, no fields) whose consuming operator
  has unmodified parameters and a stored value, the transforms Nest and Stratify leave
  the operator as it was, its value referring to the tree it referred to, they leave
  every tree object as it was, and the add and rem sequences of the pulse they return are
  empty.
\<close>

theorem noop_pulse_leaves_tree:
  assumes "valid_pulse h pulse" and "noop_pulse h pulse" and "val this = Some tree"
  shows "(\<not> nest_modified nest_params \<longrightarrow>
           (\<forall>r this' h'. Nest_transform nest_params pulse (this, h) = (r, this', h')
              \<longrightarrow> this' = this \<and> trees h' = trees h
                  \<and> (\<forall>out. r = Inr out \<longrightarrow> arrays h' (p_add (pulses h' out)) = []
                            \<and> arrays h' (p_rem (pulses h' out)) = [])))
       \<and> (\<not> strat_modified strat_params \<longrightarrow>
           (\<forall>r this' h'. Stratify_transform stratify strat_params pulse (this, h) = (r, this', h')
              \<longrightarrow> this' = this \<and> trees h' = trees h
                  \<and> (\<forall>out. r = Inr out \<longrightarrow> arrays h' (p_add (pulses h' out)) = []
                            \<and> arrays h' (p_rem (pulses h' out)) = [])))"
  using Nest_noop [OF assms] Stratify_noop [OF assms] by blast


theorem noop_pulse_leaves_tree_witness:
  "valid_pulse quiet_store 0 \<and> noop_pulse quiet_store 0
   \<and> (case Nest_transform (generate_params\<lparr>nest_generate := False\<rparr>) 0
              (\<lparr>val = Some 0\<rparr>, quiet_store) of
         (r, this', h') \<Rightarrow>
           r = Inr 1 \<and> this' = \<lparr>val = Some 0\<rparr> \<and> trees h' 0 = example_tree
           \<and> arrays h' (p_add (pulses h' 1)) = [] \<and> arrays h' (p_rem (pulses h' 1)) = [])
   \<and> (case Stratify_transform (\<lambda>id parent d. Inl (Error ''no root'')) quiet_keys 0
              (\<lparr>val = Some 0\<rparr>, quiet_store) of
         (r, this', h') \<Rightarrow>
           r = Inr 1 \<and> this' = \<lparr>val = Some 0\<rparr> \<and> trees h' 0 = example_tree
           \<and> arrays h' (p_add (pulses h' 1)) = [] \<and> arrays h' (p_rem (pulses h' 1)) = [])"
proof -
  let ?n = "Nest_transform (generate_params\<lparr>nest_generate := False\<rparr>) 0
              (\<lparr>val = Some 0\<rparr>, quiet_store)"
  let ?s = "Stratify_transform (\<lambda>id parent d. Inl (Error ''no root'')) quiet_keys 0
              (\<lparr>val = Some 0\<rparr>, quiet_store)"
  have v: "valid_pulse quiet_store 0"
    by (simp add: valid_pulse_def quiet_store_def)
  have n: "noop_pulse quiet_store 0"
    by (simp add: noop_pulse_def quiet_store_def)
  have t: "val \<lparr>val = Some (0::nat)\<rparr> = Some 0"
    by simp
  have q: "trees quiet_store 0 = example_tree"
    by (simp add: quiet_store_def)
  have en: "fst ?n = Inr 1"
    by (simp add: Nest_transform_def generate_params_def clone_def slice_def new_array_def
          new_pulse_def quiet_store_def Let_def changed_def split: prod.splits)
  have es: "fst ?s = Inr 1"
    by (simp add: Stratify_transform_def quiet_keys_def fork_def carry_def slice_def
          new_array_def new_pulse_def quiet_store_def Let_def changed_def modified_def
          materialize_def ALL_FLAGS_def ADD_REM_def split: prod.splits)
  have pn: "?n = (fst ?n, fst (snd ?n), snd (snd ?n))"
    and ps: "?s = (fst ?s, fst (snd ?s), snd (snd ?s))"
    by simp_all
  have mn: "\<not> nest_modified (generate_params\<lparr>nest_generate := False\<rparr>)"
    and ms: "\<not> strat_modified quiet_keys"
    by (simp_all add: generate_params_def quiet_keys_def)
  note th = noop_pulse_leaves_tree [OF v n t, of "generate_params\<lparr>nest_generate := False\<rparr>"
              quiet_keys "\<lambda>id parent d. Inl (Error ''no root'')"]
  from th mn pn have
    "fst (snd ?n) = \<lparr>val = Some 0\<rparr> \<and> trees (snd (snd ?n)) = trees quiet_store
     \<and> (\<forall>out. fst ?n = Inr out \<longrightarrow> arrays (snd (snd ?n)) (p_add (pulses (snd (snd ?n)) out)) = []
               \<and> arrays (snd (snd ?n)) (p_rem (pulses (snd (snd ?n)) out)) = [])"
    by blast
  moreover from th ms ps have
    "fst (snd ?s) = \<lparr>val = Some 0\<rparr> \<and> trees (snd (snd ?s)) = trees quiet_store
     \<and> (\<forall>out. fst ?s = Inr out \<longrightarrow> arrays (snd (snd ?s)) (p_add (pulses (snd (snd ?s)) out)) = []
               \<and> arrays (snd (snd ?s)) (p_rem (pulses (snd (snd ?s)) out)) = [])"
    by blast
  ultimately show ?thesis
    using v n en es q by (simp add: case_prod_beta)
qed


subsection \<open>Where tuple identities are minted\<close>









lemma no_identity_new_pulse_eq:
  "new_pulse p h = (x, h1) \<Longrightarrow> mints_no_identity h0 h \<Longrightarrow> mints_no_identity h0 h1"
  by (auto simp: mints_no_identity_def new_pulse_def)





























subsection \<open>The \<open>generates\<close> flag\<close>





subsection \<open>Failure of a layout\<close>







subsection \<open>The rank invariant\<close>

lemma renumber_props:
  "renumber g visiting op r = Inr r' \<Longrightarrow>
     (\<forall>p \<in> set (op # visiting). r' p = r p) \<and> (\<forall>x. r x \<le> r' x)
     \<and> (\<forall>a b. b \<in> set (targets g a) \<and> r' b \<le> r' a \<longrightarrow> r b \<le> r a \<and> a \<noteq> op)"
  "renumber_targets g visiting op ts r = Inr r' \<Longrightarrow> op \<in> set visiting \<Longrightarrow>
     (\<forall>p \<in> set visiting. r' p = r p) \<and> (\<forall>x. r x \<le> r' x)
     \<and> (\<forall>a b. b \<in> set (targets g a) \<and> r' b \<le> r' a \<longrightarrow> r b \<le> r a \<and> \<not> (a = op \<and> b \<in> set ts))"
proof (induction g visiting op r and g visiting op ts r arbitrary: r' and r'
       rule: renumber_renumber_targets.induct)
  case (1 g visiting op r)
  from "1.prems" have "renumber_targets g (op # visiting) op (targets g op) r = Inr r'"
    by simp
  from "1.IH" [OF this] show ?case
    by auto
next
  case (2 g visiting op r)
  then show ?case by simp
next
  case (3 g visiting op t ts r)
  let ?r1 = "r(t := max (r t) (Suc (r op)))"
  from "3.prems" have t: "t \<notin> set visiting" "t \<in> set (operators g)"
    by (auto split: if_splits)
  with "3.prems" obtain r2 where r2: "renumber g visiting t ?r1 = Inr r2"
    and r': "renumber_targets g visiting op ts r2 = Inr r'"
    by (auto split: sum.splits)
  from t have nt: "\<not> t \<notin> set (operators g)"
    by simp
  note ih1 = "3.IH"(1) [OF t(1) nt r2]
  note ih2 = "3.IH"(2) [OF t(1) nt r2 r' "3.prems"(2)]
  have ne: "op \<noteq> t"
    using t "3.prems"(2) by auto
  from ih1 have a1: "\<And>p. p \<in> set (t # visiting) \<Longrightarrow> r2 p = ?r1 p"
    and m1: "\<And>x. ?r1 x \<le> r2 x"
    and c1: "\<And>a b. b \<in> set (targets g a) \<Longrightarrow> r2 b \<le> r2 a \<Longrightarrow> ?r1 b \<le> ?r1 a \<and> a \<noteq> t"
    by blast+
  from ih2 have a2: "\<And>p. p \<in> set visiting \<Longrightarrow> r' p = r2 p"
    and m2: "\<And>x. r2 x \<le> r' x"
    and c2: "\<And>a b. b \<in> set (targets g a) \<Longrightarrow> r' b \<le> r' a
                \<Longrightarrow> r2 b \<le> r2 a \<and> \<not> (a = op \<and> b \<in> set ts)"
    by blast+
  have A: "r' p = r p" if "p \<in> set visiting" for p
  proof -
    from that t(1) have "p \<noteq> t" by auto
    with a1 [of p] a2 [of p] that show ?thesis by simp
  qed
  have B: "r x \<le> r' x" for x
  proof -
    have "r x \<le> ?r1 x" by simp
    also have "\<dots> \<le> r2 x" by (rule m1)
    also have "\<dots> \<le> r' x" by (rule m2)
    finally show ?thesis .
  qed
  have C: "r b \<le> r a \<and> \<not> (a = op \<and> b \<in> set (t # ts))"
    if e: "b \<in> set (targets g a)" and br: "r' b \<le> r' a" for a b
  proof -
    from c2 [OF e br] have b2: "r2 b \<le> r2 a" and nts: "\<not> (a = op \<and> b \<in> set ts)"
      by blast+
    from c1 [OF e b2] have b1: "?r1 b \<le> ?r1 a" and at: "a \<noteq> t"
      by blast+
    from at have ra: "?r1 a = r a" by simp
    have "r b \<le> ?r1 b" by simp
    with b1 ra have 1: "r b \<le> r a" by linarith
    have 2: "\<not> (a = op \<and> b \<in> set (t # ts))"
    proof
      assume "a = op \<and> b \<in> set (t # ts)"
      with nts have "a = op" "b = t" by auto
      with b1 ne show False by simp
    qed
    from 1 2 show ?thesis by simp
  qed
  from A B C show ?case
    by blast
qed


lemma fold_max_start: "(a::nat) \<le> fold max xs a"
proof (induction xs arbitrary: a)
  case Nil
  show ?case by simp
next
  case (Cons x xs)
  have "a \<le> max x a" by simp
  also have "\<dots> \<le> fold max xs (max x a)" by (rule Cons.IH)
  finally show ?case by simp
qed

lemma fold_max_ge: "x \<in> set xs \<Longrightarrow> (x::nat) \<le> fold max xs a"
proof (induction xs arbitrary: a)
  case Nil
  then show ?case by simp
next
  case (Cons y xs)
  show ?case
  proof (cases "x = y")
    case True
    have "x \<le> max y a" using True by simp
    also have "\<dots> \<le> fold max xs (max y a)" by (rule fold_max_start)
    finally show ?thesis by simp
  next
    case False
    with Cons.prems have "x \<in> set xs" by simp
    from Cons.IH [OF this] show ?thesis by simp
  qed
qed

lemma graph_ok_empty: "graph_ok empty_graph"
  by (simp add: graph_ok_def wellformed_def rank_invariant_def empty_graph_def)

lemma graph_ok_addOperator:
  assumes "addOperator g params = Inr (op, g')" and "graph_ok g"
  shows "graph_ok g'"
proof -
  let ?r = "if params = [] then 0 else Suc (fold max (map (rank g) params) 0)"
  from assms(1) have ps: "set params \<subseteq> set (operators g)"
    and op: "op = next_id g"
    and g': "g' = g\<lparr>operators := operators g @ [op],
                    rank := (rank g)(op := ?r),
                    targets := (\<lambda>x. if x = op then []
                                    else if x \<in> set params then targets g x @ [op]
                                    else targets g x),
                    next_id := Suc op\<rparr>"
    by (auto simp: addOperator_def Let_def list_all_iff split: if_splits)
  from assms(2) have wf: "wellformed g" and inv: "rank_invariant g"
    by (simp_all add: graph_ok_def)
  from wf op have fresh: "op \<notin> set (operators g)"
    by (auto simp: wellformed_def)
  have r: "rank g p < ?r" if "p \<in> set params" for p
    using that fold_max_ge [of "rank g p" "map (rank g) params" 0] by (auto simp: less_Suc_eq_le)
  have "wellformed g'"
    using wf ps op unfolding g' wellformed_def by (auto simp: less_Suc_eq)
  moreover have "rank_invariant g'"
    unfolding rank_invariant_def
  proof (intro ballI)
    fix a b assume a: "a \<in> set (operators g')" and b: "b \<in> set (targets g' a)"
    from b g' have ne: "a \<noteq> op" by (auto split: if_splits)
    with a g' have ao: "a \<in> set (operators g)" by simp
    show "rank g' a < rank g' b"
    proof (cases "b = op")
      case True
      with b ne g' wf fresh have "a \<in> set params"
        by (auto simp: wellformed_def split: if_splits)
      with r ne True g' show ?thesis by simp
    next
      case False
      with b ne g' have "b \<in> set (targets g a)"
        by (auto split: if_splits)
      with inv ao have "rank g a < rank g b"
        by (simp add: rank_invariant_def)
      with ne False g' show ?thesis by simp
    qed
  qed
  ultimately show ?thesis
    by (simp add: graph_ok_def)
qed

lemma graph_ok_connect:
  assumes "connect g source target = Inr g'" and "graph_ok g"
  shows "graph_ok g'"
proof -
  let ?g1 = "g\<lparr>targets := (targets g)(source := targets g source @ [target])\<rparr>"
  from assms(1) have st: "source \<in> set (operators g)" "target \<in> set (operators g)"
    by (auto simp: connect_def split: if_splits)
  from assms(2) have wf: "wellformed g" and inv: "rank_invariant g"
    by (simp_all add: graph_ok_def)
  have wf1: "wellformed ?g1"
    using wf st by (auto simp: wellformed_def)
  show ?thesis
  proof (cases "rank g target \<le> rank g source")
    case False
    with assms(1) st have g': "g' = ?g1"
      by (simp add: connect_def Let_def)
    have "rank_invariant ?g1"
      using inv False by (auto simp: rank_invariant_def)
    with wf1 g' show ?thesis
      by (simp add: graph_ok_def)
  next
    case True
    with assms(1) st obtain r' where rn: "renumber ?g1 [] source (rank g) = Inr r'"
      and g': "g' = ?g1\<lparr>rank := r'\<rparr>"
      by (auto simp: connect_def rerank_def Let_def split: sum.splits)
    from renumber_props(1) [OF rn]
    have c: "\<And>a b. b \<in> set (targets ?g1 a) \<Longrightarrow> r' b \<le> r' a
               \<Longrightarrow> rank g b \<le> rank g a \<and> a \<noteq> source"
      by blast
    have "rank_invariant g'"
      unfolding rank_invariant_def
    proof (intro ballI, rule ccontr)
      fix a b assume a: "a \<in> set (operators g')" and b: "b \<in> set (targets g' a)"
        and n: "\<not> rank g' a < rank g' b"
      from b g' have b1: "b \<in> set (targets ?g1 a)" by simp
      from n g' have "r' b \<le> r' a" by simp
      from c [OF b1 this] have le: "rank g b \<le> rank g a" and ne: "a \<noteq> source"
        by blast+
      from b1 ne have "b \<in> set (targets g a)" by simp
      moreover from a g' have "a \<in> set (operators g)" by simp
      ultimately have "rank g a < rank g b"
        using inv by (simp add: rank_invariant_def)
      with le show False by simp
    qed
    moreover from wf1 g' have "wellformed g'"
      by (simp add: wellformed_def)
    ultimately show ?thesis
      by (simp add: graph_ok_def)
  qed
qed

lemma graph_ok_removeOperator: "graph_ok g \<Longrightarrow> graph_ok (removeOperator g op)"
  by (auto simp: graph_ok_def wellformed_def rank_invariant_def removeOperator_def)

lemma graph_ok_mutate: "mutate g m = Inr g' \<Longrightarrow> graph_ok g \<Longrightarrow> graph_ok g'"
  by (cases m)
     (auto simp: graph_ok_removeOperator split: sum.splits prod.splits
        dest: graph_ok_addOperator graph_ok_connect)

lemma graph_ok_mutations: "mutations g ms = Inr g' \<Longrightarrow> graph_ok g \<Longrightarrow> graph_ok g'"
  by (induction ms arbitrary: g) (auto split: sum.splits dest: graph_ok_mutate)

text \<open>
  C1. For every edge from an operator A to an operator B of the graph, after any run of
  mutations (operators added, edges connected, operators removed) has settled,
  \<open>rank(A) < rank(B)\<close>.
\<close>

theorem rank_invariant_after_mutations:
  assumes "mutations empty_graph ms = Inr g"
  shows "\<forall>a \<in> set (operators g). \<forall>b \<in> set (targets g a). rank g a < rank g b"
  using graph_ok_mutations [OF assms graph_ok_empty]
  by (simp add: graph_ok_def rank_invariant_def)


theorem rank_invariant_after_mutations_witness:
  "(case mutations empty_graph example_mutations of
      Inl e \<Rightarrow> False
    | Inr g \<Rightarrow> operators g = [0, 1, 2] \<and> targets g 2 = [1] \<and> rank g 2 < rank g 1)"
proof -
  have ev: "map_sum id (\<lambda>g. (operators g, targets g 2)) (mutations empty_graph example_mutations)
              = Inr ([0, 1, 2], [1])"
    by (simp add: example_mutations_def empty_graph_def addOperator_def connect_def rerank_def
          Let_def)
  then obtain g where g: "mutations empty_graph example_mutations = Inr g"
    and o: "operators g = [0, 1, 2]" and t: "targets g 2 = [1]"
    by (cases "mutations empty_graph example_mutations") auto
  from rank_invariant_after_mutations [OF g] o t have "rank g 2 < rank g 1"
    by simp
  with g o t show ?thesis
    by simp
qed



subsection \<open>Where configuration errors are raised\<close>










end
